theory Spec2Isabelle
  imports Complex_Main "HOL-Library.AList"
begin

section \<open>The in-memory task queue (QueueManager)\<close>

text \<open>
  A shallow embedding of the class \<open>QueueManager\<close> (the scheduler of the distributed task
  queue) and of the types it uses. Conventions of the embedding:

  \<^item> JavaScript numbers that hold counters and millisecond timestamps are \<open>int\<close>; the
    running average is a \<open>real\<close> (exact arithmetic, no rounding); \<open>retries\<close> starts at 0
    and is only incremented, so it is a \<open>nat\<close>.
  \<^item> \<open>Date.now()\<close> is the parameter \<open>now\<close> of every operation that reads the clock.
  \<open>uuidv4()\<close> is the parameter \<open>newId\<close> of \<open>addTask\<close>.
  \<^item> Task objects are mutable and shared between the \<open>tasks\<close> map and the closures
    passed to \<open>setTimeout\<close>, so they live in an explicit store \<open>heap\<close>; the map and
    the timers hold addresses. An address is the position of the object in the store.
    Objects are only ever added to the store, so an address stays valid; \<open>wfHeap\<close>
    below is the invariant that every address in use is one of the store.
  \<^item> A \<open>Map\<close> is an association list in insertion order (\<open>AList.update\<close> replaces
    the value of an existing key in place and appends a new key, as \<open>Map.set\<close> does).
  \<^item> \<open>setTimeout(cb, d)\<close> adds a pending timer; the event loop runs a pending timer
    once, not before \<open>d\<close> milliseconds have passed (\<open>fireTimer\<close>).
  \<^item> \<open>emit('queue:event', ...)\<close> appends the event to the log \<open>events\<close>.
\<close>

subsection \<open>Types\<close>

datatype TaskPriority = High | Normal | Low

datatype TaskStatus = Pending | Processing | Completed | Failed | Retrying

datatype TaskType = Email | ImageProcessing | DataAnalysis | ReportGeneration
  | Notification | FileUpload | DatabaseBackup | Computation | Default

datatype json = JNull | JBool bool | JNum int | JStr string
  | JArr "json list" | JObj "(string \<times> json) list"

record Task =
  taskId :: string
  taskType :: TaskType
  payload :: json
  priority :: TaskPriority
  status :: TaskStatus
  retries :: nat
  maxRetries :: int
  createdAt :: int
  updatedAt :: int
  startedAt :: "int option"
  completedAt :: "int option"
  failedAt :: "int option"
  workerId :: "string option"
  lastError :: "string option"
  nextRetryAt :: "int option"
  result :: "json option"

record TaskCreateRequest =
  req_type :: TaskType
  req_payload :: "json option"
  req_priority :: "TaskPriority option"
  req_maxRetries :: "int option"

datatype WorkerStatus = Idle | Busy

record Worker =
  worker_id :: string
  worker_status :: WorkerStatus
  tasksProcessed :: int
  currentTask :: "string option"
  worker_startedAt :: int
  lastHeartbeat :: int
  pid :: "int option"

text \<open>\<open>Partial<Worker>\<close>: every field may be absent.\<close>

record WorkerInfo =
  info_id :: "string option"
  info_status :: "WorkerStatus option"
  info_tasksProcessed :: "int option"
  info_currentTask :: "string option"
  info_startedAt :: "int option"
  info_lastHeartbeat :: "int option"
  info_pid :: "int option"

record QueueLengths =
  len_high :: int
  len_normal :: int
  len_low :: int

record QueueStats =
  tasksCreated :: int
  pendingTasks :: int
  processingTasks :: int
  completedTasks :: int
  failedTasks :: int
  retriedTasks :: int
  avgProcessingTime :: real
  activeWorkers :: int
  queueLengths :: QueueLengths
  processingCount :: int

text \<open>The payloads of the events of \<open>emitEvent\<close>; the last field is the timestamp.\<close>

datatype QueueEvent =
    TaskCreated string TaskType TaskPriority TaskStatus int
  | TaskProcessing string string TaskType int
  | TaskCompleted string TaskType int int
  | TaskFailed string TaskType string int
  | TaskRetrying string nat int int
  | WorkerRegistered string int
  | WorkerUnregistered string int

text \<open>
  A pending \<open>setTimeout\<close> of \<open>failTask\<close>: the task object and the id its closure
  captured, the delay passed to \<open>setTimeout\<close> and the time of the call.
\<close>

record Timer =
  timer_task :: nat
  timer_taskId :: string
  timer_delay :: int
  timer_setAt :: int

text \<open>\<open>config.worker\<close>: the two settings the queue manager reads.\<close>

record WorkerConfig =
  cfg_maxRetries :: int
  cfg_retryDelay :: int

text \<open>
  The configuration when \<open>MAX_RETRIES\<close> and \<open>RETRY_DELAY\<close> are not set in the
  environment: \<open>parseInt('3')\<close> and \<open>parseInt('1000')\<close>.
\<close>

definition defaultConfig :: WorkerConfig where
  "defaultConfig = \<lparr>cfg_maxRetries = 3, cfg_retryDelay = 1000\<rparr>"

record QueueManager =
  queues :: "TaskPriority \<Rightarrow> string list"
  processing :: "string list"
  tasks :: "(string \<times> nat) list"
  heap :: "Task list"
  results :: "(string \<times> json) list"
  workers :: "(string \<times> Worker) list"
  stats :: QueueStats
  timers :: "Timer list"
  events :: "QueueEvent list"

subsection \<open>Construction\<close>

definition zeroStats :: "int \<Rightarrow> QueueStats" where
  "zeroStats w =
     \<lparr>tasksCreated = 0, pendingTasks = 0, processingTasks = 0, completedTasks = 0,
      failedTasks = 0, retriedTasks = 0, avgProcessingTime = 0, activeWorkers = w,
      queueLengths = \<lparr>len_high = 0, len_normal = 0, len_low = 0\<rparr>,
      processingCount = 0\<rparr>"

definition initialState :: QueueManager where
  "initialState =
     \<lparr>queues = (\<lambda>p. []), processing = [], tasks = [], heap = [], results = [],
      workers = [], stats = zeroStats 0, timers = [], events = []\<rparr>"

definition emitEvent :: "QueueEvent \<Rightarrow> QueueManager \<Rightarrow> QueueManager" where
  "emitEvent ev s = s\<lparr>events := events s @ [ev]\<rparr>"

subsection \<open>addTask\<close>

text \<open>
  \<open>a || b\<close> yields \<open>b\<close> when \<open>a\<close> is \<open>undefined\<close> or \<open>0\<close>. Every
  \<open>TaskType\<close> is a non-empty string and every payload object is truthy, so the two other
  defaults of \<open>addTask\<close> apply to an absent value only.
\<close>

definition orDefault :: "int option \<Rightarrow> int \<Rightarrow> int" where
  "orDefault a b = (case a of None \<Rightarrow> b | Some v \<Rightarrow> if v = 0 then b else v)"

definition newTask :: "WorkerConfig \<Rightarrow> int \<Rightarrow> string \<Rightarrow> TaskCreateRequest \<Rightarrow> TaskPriority \<Rightarrow> Task" where
  "newTask cfg now newId taskData prio =
     \<lparr>taskId = newId,
      taskType = req_type taskData,
      payload = (case req_payload taskData of None \<Rightarrow> JObj [] | Some p \<Rightarrow> p),
      priority = prio,
      status = Pending,
      retries = 0,
      maxRetries = orDefault (req_maxRetries taskData) (cfg_maxRetries cfg),
      createdAt = now,
      updatedAt = now,
      startedAt = None, completedAt = None, failedAt = None, workerId = None,
      lastError = None, nextRetryAt = None, result = None\<rparr>"

definition addTask ::
  "WorkerConfig \<Rightarrow> int \<Rightarrow> string \<Rightarrow> TaskCreateRequest \<Rightarrow> TaskPriority \<Rightarrow> QueueManager
     \<Rightarrow> Task \<times> QueueManager" where
  "addTask cfg now newId taskData prio s =
     (let task = newTask cfg now newId taskData prio;
          s1 = s\<lparr>heap := heap s @ [task],
                 tasks := AList.update newId (length (heap s)) (tasks s)\<rparr>;
          s2 = s1\<lparr>queues := (queues s1)(prio := newId # queues s1 prio)\<rparr>;
          s3 = s2\<lparr>stats := (stats s2)\<lparr>tasksCreated := tasksCreated (stats s2) + 1\<rparr>\<rparr>;
          s4 = s3\<lparr>stats := (stats s3)\<lparr>pendingTasks := pendingTasks (stats s3) + 1\<rparr>\<rparr>
      in (task, emitEvent (TaskCreated newId (taskType task) prio Pending now) s4))"

subsection \<open>getNextTask\<close>

text \<open>
  The \<open>for\<close> loop over \<open>['high', 'normal', 'low']\<close>. \<open>pop()\<close> takes the last
  element of the lane; a popped id that is the empty string, or has no entry in \<open>tasks\<close>,
  is gone from the lane and the loop goes on with the next priority.
\<close>

fun getNextTask_scan ::
  "string \<Rightarrow> int \<Rightarrow> TaskPriority list \<Rightarrow> QueueManager \<Rightarrow> Task option \<times> QueueManager" where
  "getNextTask_scan wid now [] s = (None, s)"
| "getNextTask_scan wid now (p # ps) s =
     (if length (queues s p) > 0 then
        (let tid = last (queues s p);
             s1 = s\<lparr>queues := (queues s)(p := butlast (queues s p))\<rparr>
         in if tid = [] then getNextTask_scan wid now ps s1
            else (case map_of (tasks s1) tid of
                    None \<Rightarrow> getNextTask_scan wid now ps s1
                  | Some a \<Rightarrow>
                      (let task = (heap s1 ! a)\<lparr>status := Processing, workerId := Some wid,
                                                startedAt := Some now, updatedAt := now\<rparr>;
                           s2 = s1\<lparr>heap := (heap s1)[a := task],
                                   processing := processing s1 @ [tid]\<rparr>;
                           s3 = s2\<lparr>stats := (stats s2)\<lparr>pendingTasks := pendingTasks (stats s2) - 1\<rparr>\<rparr>;
                           s4 = s3\<lparr>stats := (stats s3)\<lparr>processingTasks := processingTasks (stats s3) + 1\<rparr>\<rparr>
                       in (Some task, emitEvent (TaskProcessing tid wid (taskType task) now) s4))))
      else getNextTask_scan wid now ps s)"

definition getNextTask :: "string \<Rightarrow> int \<Rightarrow> QueueManager \<Rightarrow> Task option \<times> QueueManager" where
  "getNextTask wid now s = getNextTask_scan wid now [High, Normal, Low] s"

subsection \<open>completeTask\<close>

definition updateAverageProcessingTime :: "int \<Rightarrow> QueueStats \<Rightarrow> QueueStats" where
  "updateAverageProcessingTime newTime st =
     (let completed = (if completedTasks st = 0 then 1 else completedTasks st);
          currentAvg = (if avgProcessingTime st = 0 then 0 else avgProcessingTime st)
      in st\<lparr>avgProcessingTime :=
               (currentAvg * (real_of_int completed - 1) + real_of_int newTime)
                 / real_of_int completed\<rparr>)"

text \<open>\<open>task.startedAt || task.createdAt\<close>\<close>

definition startOf :: "Task \<Rightarrow> int" where
  "startOf task =
     (case startedAt task of None \<Rightarrow> createdAt task
      | Some t \<Rightarrow> if t = 0 then createdAt task else t)"

definition completeTask :: "int \<Rightarrow> string \<Rightarrow> json \<Rightarrow> QueueManager \<Rightarrow> bool \<times> QueueManager" where
  "completeTask now tid res s =
     (case map_of (tasks s) tid of
        None \<Rightarrow> (False, s)
      | Some a \<Rightarrow>
          (let task = (heap s ! a)\<lparr>status := Completed, completedAt := Some now, updatedAt := now\<rparr>;
               s1 = s\<lparr>heap := (heap s)[a := task],
                      results := AList.update tid res (results s),
                      processing := remove1 tid (processing s)\<rparr>;
               s2 = s1\<lparr>stats := (stats s1)\<lparr>processingTasks := processingTasks (stats s1) - 1\<rparr>\<rparr>;
               s3 = s2\<lparr>stats := (stats s2)\<lparr>completedTasks := completedTasks (stats s2) + 1\<rparr>\<rparr>;
               processingTime = now - startOf task;
               s4 = s3\<lparr>stats := updateAverageProcessingTime processingTime (stats s3)\<rparr>
           in (True, emitEvent (TaskCompleted tid (taskType task) processingTime now) s4)))"

subsection \<open>failTask and the deferred re-enqueue\<close>

definition failTask ::
  "WorkerConfig \<Rightarrow> int \<Rightarrow> string \<Rightarrow> string \<Rightarrow> QueueManager \<Rightarrow> bool \<times> QueueManager" where
  "failTask cfg now tid message s =
     (case map_of (tasks s) tid of
        None \<Rightarrow> (False, s)
      | Some a \<Rightarrow>
          (let task = heap s ! a;
               s1 = s\<lparr>processing := remove1 tid (processing s)\<rparr>;
               s2 = s1\<lparr>stats := (stats s1)\<lparr>processingTasks := processingTasks (stats s1) - 1\<rparr>\<rparr>
           in if int (retries task) < maxRetries task then
                (let retryDelay = cfg_retryDelay cfg * 2 ^ retries task;
                     task1 = task\<lparr>status := Retrying, retries := retries task + 1,
                                  lastError := Some message,
                                  nextRetryAt := Some (now + retryDelay), updatedAt := now\<rparr>
                 in (True, s2\<lparr>heap := (heap s2)[a := task1],
                              timers := timers s2 @
                                [\<lparr>timer_task = a, timer_taskId = tid,
                                  timer_delay = retryDelay, timer_setAt = now\<rparr>]\<rparr>))
              else
                (let task1 = task\<lparr>status := Failed, failedAt := Some now,
                                  lastError := Some message, updatedAt := now\<rparr>;
                     s3 = s2\<lparr>heap := (heap s2)[a := task1]\<rparr>;
                     s4 = s3\<lparr>stats := (stats s3)\<lparr>failedTasks := failedTasks (stats s3) + 1\<rparr>\<rparr>
                 in (True, emitEvent (TaskFailed tid (taskType task1) message now) s4))))"

text \<open>The body of the arrow function passed to \<open>setTimeout\<close>, run at time \<open>now\<close>.\<close>

definition retryCallback :: "Timer \<Rightarrow> int \<Rightarrow> QueueManager \<Rightarrow> QueueManager" where
  "retryCallback tm now s =
     (let a = timer_task tm; tid = timer_taskId tm;
          prio = priority (heap s ! a);
          s1 = s\<lparr>queues := (queues s)(prio := tid # queues s prio)\<rparr>;
          task = (heap s1 ! a)\<lparr>status := Pending, updatedAt := now\<rparr>;
          s2 = s1\<lparr>heap := (heap s1)[a := task]\<rparr>;
          s3 = s2\<lparr>stats := (stats s2)\<lparr>pendingTasks := pendingTasks (stats s2) + 1\<rparr>\<rparr>;
          s4 = s3\<lparr>stats := (stats s3)\<lparr>retriedTasks := retriedTasks (stats s3) + 1\<rparr>\<rparr>
      in emitEvent (TaskRetrying tid (retries task) (maxRetries task) now) s4)"

text \<open>
  The event loop runs the \<open>i\<close>-th pending timer at time \<open>now\<close>, if there is one and its
  delay has passed, and forgets it; otherwise nothing happens.
\<close>

definition fireTimer :: "int \<Rightarrow> nat \<Rightarrow> QueueManager \<Rightarrow> QueueManager" where
  "fireTimer now i s =
     (if i < length (timers s) \<and> timer_setAt (timers s ! i) + timer_delay (timers s ! i) \<le> now
      then retryCallback (timers s ! i) now
             (s\<lparr>timers := take i (timers s) @ drop (Suc i) (timers s)\<rparr>)
      else s)"

subsection \<open>Queries\<close>

definition getTaskStatus :: "string \<Rightarrow> QueueManager \<Rightarrow> Task option" where
  "getTaskStatus tid s =
     (case map_of (tasks s) tid of
        None \<Rightarrow> None
      | Some a \<Rightarrow>
          (let task = heap s ! a
           in Some (if status task = Completed
                    then task\<lparr>result := map_of (results s) tid\<rparr> else task)))"

definition getQueueStats :: "QueueManager \<Rightarrow> QueueStats" where
  "getQueueStats s =
     (stats s)\<lparr>queueLengths :=
                  \<lparr>len_high = int (length (queues s High)),
                   len_normal = int (length (queues s Normal)),
                   len_low = int (length (queues s Low))\<rparr>,
               processingCount := int (length (processing s))\<rparr>"

subsection \<open>Workers\<close>

definition newWorker :: "int \<Rightarrow> string \<Rightarrow> WorkerInfo \<Rightarrow> Worker" where
  "newWorker now wid info =
     \<lparr>worker_id = (case info_id info of None \<Rightarrow> wid | Some v \<Rightarrow> v),
      worker_status = (case info_status info of None \<Rightarrow> Idle | Some v \<Rightarrow> v),
      tasksProcessed = (case info_tasksProcessed info of None \<Rightarrow> 0 | Some v \<Rightarrow> v),
      currentTask = info_currentTask info,
      worker_startedAt = (case info_startedAt info of None \<Rightarrow> now | Some v \<Rightarrow> v),
      lastHeartbeat = (case info_lastHeartbeat info of None \<Rightarrow> now | Some v \<Rightarrow> v),
      pid = info_pid info\<rparr>"

definition registerWorker :: "int \<Rightarrow> string \<Rightarrow> WorkerInfo \<Rightarrow> QueueManager \<Rightarrow> QueueManager" where
  "registerWorker now wid info s =
     (let s1 = s\<lparr>workers := AList.update wid (newWorker now wid info) (workers s)\<rparr>;
          s2 = s1\<lparr>stats := (stats s1)\<lparr>activeWorkers := activeWorkers (stats s1) + 1\<rparr>\<rparr>
      in emitEvent (WorkerRegistered wid now) s2)"

definition updateWorkerHeartbeat ::
  "int \<Rightarrow> string \<Rightarrow> WorkerStatus \<Rightarrow> string option \<Rightarrow> QueueManager \<Rightarrow> QueueManager" where
  "updateWorkerHeartbeat now wid st cur s =
     (case map_of (workers s) wid of
        None \<Rightarrow> s
      | Some w \<Rightarrow>
          s\<lparr>workers := AList.update wid
               (w\<lparr>worker_status := st,
                  currentTask := Some (case cur of None \<Rightarrow> [] | Some c \<Rightarrow> c),
                  lastHeartbeat := now\<rparr>) (workers s)\<rparr>)"

definition incrementWorkerTaskCount :: "string \<Rightarrow> QueueManager \<Rightarrow> QueueManager" where
  "incrementWorkerTaskCount wid s =
     (case map_of (workers s) wid of
        None \<Rightarrow> s
      | Some w \<Rightarrow>
          s\<lparr>workers := AList.update wid (w\<lparr>tasksProcessed := tasksProcessed w + 1\<rparr>) (workers s)\<rparr>)"

definition unregisterWorker :: "int \<Rightarrow> string \<Rightarrow> QueueManager \<Rightarrow> QueueManager" where
  "unregisterWorker now wid s =
     (let s1 = s\<lparr>workers := AList.delete wid (workers s)\<rparr>;
          s2 = s1\<lparr>stats := (stats s1)\<lparr>activeWorkers := activeWorkers (stats s1) - 1\<rparr>\<rparr>
      in emitEvent (WorkerUnregistered wid now) s2)"

definition getActiveWorkers :: "QueueManager \<Rightarrow> Worker list" where
  "getActiveWorkers s = map snd (workers s)"

subsection \<open>clearAll\<close>

definition clearAll :: "QueueManager \<Rightarrow> QueueManager" where
  "clearAll s =
     s\<lparr>queues := (\<lambda>p. []), processing := [], tasks := [], results := [],
       stats := zeroStats (int (length (workers s)))\<rparr>"

subsection \<open>Executions\<close>

text \<open>
  One call of a public method, or one timer callback run by the event loop. Every method
  body runs to its end without yielding (there is no \<open>await\<close> inside), so an execution
  of the queue manager is a sequence of these.
\<close>

datatype Op =
    Submit string TaskCreateRequest TaskPriority int
  | FetchNext string int
  | Complete string json int
  | Fail string string int
  | TimerFire nat int
  | ClearAll
  | RegisterWorker string WorkerInfo int
  | Heartbeat string WorkerStatus "string option" int
  | IncrementWorkerTaskCount string
  | UnregisterWorker string int

fun step :: "WorkerConfig \<Rightarrow> Op \<Rightarrow> QueueManager \<Rightarrow> QueueManager" where
  "step cfg (Submit newId taskData prio now) s = snd (addTask cfg now newId taskData prio s)"
| "step cfg (FetchNext wid now) s = snd (getNextTask wid now s)"
| "step cfg (Complete tid res now) s = snd (completeTask now tid res s)"
| "step cfg (Fail tid message now) s = snd (failTask cfg now tid message s)"
| "step cfg (TimerFire i now) s = fireTimer now i s"
| "step cfg ClearAll s = clearAll s"
| "step cfg (RegisterWorker wid info now) s = registerWorker now wid info s"
| "step cfg (Heartbeat wid st cur now) s = updateWorkerHeartbeat now wid st cur s"
| "step cfg (IncrementWorkerTaskCount wid) s = incrementWorkerTaskCount wid s"
| "step cfg (UnregisterWorker wid now) s = unregisterWorker now wid s"

fun exec :: "WorkerConfig \<Rightarrow> Op list \<Rightarrow> QueueManager \<Rightarrow> QueueManager" where
  "exec cfg [] s = s"
| "exec cfg (op # ops) s = exec cfg ops (step cfg op s)"

fun isClearAll :: "Op \<Rightarrow> bool" where
  "isClearAll ClearAll = True"
| "isClearAll _ = False"

definition noClearAll :: "Op list \<Rightarrow> bool" where
  "noClearAll ops = (filter isClearAll ops = [])"

section \<open>Notions used in the proofs\<close>

subsection \<open>The two outcomes of one lane scan\<close>

text \<open>
  The block of \<open>getNextTask\<close> that hands a task to a worker, and the effect of
  \<open>pop()\<close> on one lane, as functions of their own. \<open>scan_Cons\<close> below shows that
  \<open>getNextTask_scan\<close> is built from them.
\<close>

definition dispatch :: "string \<Rightarrow> int \<Rightarrow> string \<Rightarrow> nat \<Rightarrow> QueueManager \<Rightarrow> Task option \<times> QueueManager" where
  "dispatch wid now tid a s1 =
     (let task = (heap s1 ! a)\<lparr>status := Processing, workerId := Some wid,
                               startedAt := Some now, updatedAt := now\<rparr>
      in (Some task,
          s1\<lparr>heap := (heap s1)[a := task],
             processing := processing s1 @ [tid],
             stats := (stats s1)\<lparr>pendingTasks := pendingTasks (stats s1) - 1,
                                 processingTasks := processingTasks (stats s1) + 1\<rparr>,
             events := events s1 @ [TaskProcessing tid wid (taskType (heap s1 ! a)) now]\<rparr>))"

definition popLane :: "TaskPriority \<Rightarrow> QueueManager \<Rightarrow> QueueManager" where
  "popLane p s = s\<lparr>queues := (queues s)(p := butlast (queues s p))\<rparr>"

text \<open>
  \<open>shrunk q q0\<close>: every lane of \<open>q\<close> is an initial part of the same lane of
  \<open>q0\<close>; ids have only been popped. \<open>scanResult\<close>: a scan either finds nothing
  and only pops, or pops and dispatches one task of the store.
\<close>

definition shrunk :: "(TaskPriority \<Rightarrow> string list) \<Rightarrow> (TaskPriority \<Rightarrow> string list) \<Rightarrow> bool" where
  "shrunk q q0 = (\<forall>p. \<exists>k. q p = take k (q0 p))"

definition scanResult :: "string \<Rightarrow> int \<Rightarrow> QueueManager \<Rightarrow> Task option \<times> QueueManager \<Rightarrow> bool" where
  "scanResult wid now s r =
     (\<exists>q. shrunk q (queues s) \<and>
        (r = (None, s\<lparr>queues := q\<rparr>) \<or>
         (\<exists>tid a. map_of (tasks s) tid = Some a \<and> r = dispatch wid now tid a (s\<lparr>queues := q\<rparr>))))"

subsection \<open>Invariants\<close>

text \<open>
  \<open>balance\<close> is zero when the four status counters and the pending timers add up to
  the number of created tasks.
\<close>

definition balance :: "QueueManager \<Rightarrow> int" where
  "balance s = pendingTasks (stats s) + processingTasks (stats s) + completedTasks (stats s)
     + failedTasks (stats s) + int (length (timers s)) - tasksCreated (stats s)"

text \<open>
  The processing times of the \<open>task:completed\<close> events emitted so far, oldest first,
  and the invariant that ties the running average to them.
\<close>

fun completedTimes :: "QueueEvent list \<Rightarrow> int list" where
  "completedTimes [] = []"
| "completedTimes (TaskCompleted tid ty t ts # evs) = t # completedTimes evs"
| "completedTimes (ev # evs) = completedTimes evs"

definition avgInv :: "QueueManager \<Rightarrow> bool" where
  "avgInv s =
     (completedTasks (stats s) = int (length (completedTimes (events s))) \<and>
      avgProcessingTime (stats s) * real (length (completedTimes (events s)))
        = real_of_int (sum_list (completedTimes (events s))))"

text \<open>
  Every address in the task store and in a pending timer is an object of the store, and an
  object is stored under its own id.
\<close>

definition wfHeap :: "QueueManager \<Rightarrow> bool" where
  "wfHeap s =
     ((\<forall>tid a. map_of (tasks s) tid = Some a \<longrightarrow>
          a < length (heap s) \<and> taskId (heap s ! a) = tid) \<and>
      (\<forall>tm \<in> set (timers s). timer_task tm < length (heap s)))"

text \<open>
  \<open>uuidv4()\<close> never returns the empty string: \<open>nonEmptyIds\<close> says so of the ids
  of an execution. \<open>lanesKnown\<close>: every id in a lane, and every id a pending timer will
  re-enqueue, has a record in the task store.
\<close>

fun emptyIdSubmit :: "Op \<Rightarrow> bool" where
  "emptyIdSubmit (Submit newId taskData prio now) = (newId = [])"
| "emptyIdSubmit _ = False"

definition nonEmptyIds :: "Op list \<Rightarrow> bool" where
  "nonEmptyIds ops = (filter emptyIdSubmit ops = [])"

definition lanesKnown :: "QueueManager \<Rightarrow> bool" where
  "lanesKnown s =
     (map_of (tasks s) [] = None \<and>
      (\<forall>p. \<forall>tid \<in> set (queues s p). map_of (tasks s) tid \<noteq> None) \<and>
      (\<forall>tm \<in> set (timers s). map_of (tasks s) (timer_taskId tm) \<noteq> None))"

text \<open>
  The specification's choice of the next task: the oldest id (the last element) of the first
  non-empty lane in the order high, normal, low.
\<close>

definition nextPending :: "QueueManager \<Rightarrow> (TaskPriority \<times> string) option" where
  "nextPending s =
     (if queues s High \<noteq> [] then Some (High, last (queues s High))
      else if queues s Normal \<noteq> [] then Some (Normal, last (queues s Normal))
      else if queues s Low \<noteq> [] then Some (Low, last (queues s Low))
      else None)"

text \<open>
  The order in which the pending ids are due: the high lane from its oldest id to its
  youngest, then the normal lane, then the low lane (a lane holds its youngest id first).
  \<open>fetchIds\<close> runs one \<open>getNextTask\<close> per given worker id and time, one
  after the other, and collects the ids of the tasks returned.
\<close>

definition pendingOrder :: "QueueManager \<Rightarrow> string list" where
  "pendingOrder s = rev (queues s High) @ rev (queues s Normal) @ rev (queues s Low)"

fun fetchIds :: "(string \<times> int) list \<Rightarrow> QueueManager \<Rightarrow> string list" where
  "fetchIds [] s = []"
| "fetchIds ((wid, now) # calls) s =
     (case getNextTask wid now s of
        (None, s') \<Rightarrow> fetchIds calls s'
      | (Some t, s') \<Rightarrow> taskId t # fetchIds calls s')"

text \<open>
  \<open>failCalls cfg ops s a\<close> counts the \<open>failTask\<close> calls of the execution
  \<open>ops\<close> from \<open>s\<close> that found the task object at address \<open>a\<close>.
  \<open>retriesInv\<close> relates the retry count of every object to that number.
\<close>

fun failHits :: "Op \<Rightarrow> QueueManager \<Rightarrow> nat \<Rightarrow> bool" where
  "failHits (Fail tid message now) s a = (map_of (tasks s) tid = Some a)"
| "failHits _ s a = False"

fun failCalls :: "WorkerConfig \<Rightarrow> Op list \<Rightarrow> QueueManager \<Rightarrow> nat \<Rightarrow> nat" where
  "failCalls cfg [] s a = 0"
| "failCalls cfg (op # ops) s a =
     (if failHits op s a then 1 else 0) + failCalls cfg ops (step cfg op s) a"

definition retriesInv :: "QueueManager \<Rightarrow> (nat \<Rightarrow> nat) \<Rightarrow> bool" where
  "retriesInv s fc =
     (\<forall>a. if a < length (heap s)
          then retries (heap s ! a) = min (fc a) (nat (maxRetries (heap s ! a)))
          else fc a = 0)"

definition sameRetries :: "QueueManager \<Rightarrow> QueueManager \<Rightarrow> bool" where
  "sameRetries s s' =
     (length (heap s') = length (heap s) \<and>
      (\<forall>a < length (heap s). retries (heap s' ! a) = retries (heap s ! a)
          \<and> maxRetries (heap s' ! a) = maxRetries (heap s ! a)))"

subsection \<open>Example executions\<close>

definition plainRequest :: TaskCreateRequest where
  "plainRequest = \<lparr>req_type = Email, req_payload = None, req_priority = None,
                    req_maxRetries = None\<rparr>"

definition noInfo :: WorkerInfo where
  "noInfo = \<lparr>info_id = None, info_status = None, info_tasksProcessed = None,
              info_currentTask = None, info_startedAt = None, info_lastHeartbeat = None,
              info_pid = None\<rparr>"

definition retryWindowOps :: "Op list" where
  "retryWindowOps =
     [Submit ''a'' plainRequest High 10, FetchNext ''w1'' 20, Fail ''a'' ''boom'' 30]"

definition staleOps :: "Op list" where
  "staleOps = retryWindowOps @ [ClearAll, TimerFire 0 1030]"

definition skipOps :: "Op list" where
  "skipOps =
     staleOps @ [Submit ''c'' plainRequest High 1035, Submit ''b'' plainRequest Normal 1040]"

definition priorityOps :: "Op list" where
  "priorityOps =
     [Submit ''a'' plainRequest Low 1, Submit ''b'' plainRequest High 2,
      Submit ''c'' plainRequest High 3]"

definition completionOps :: "Op list" where
  "completionOps =
     [Submit ''a'' plainRequest Normal 10, Submit ''b'' plainRequest Normal 10,
      FetchNext ''w1'' 20, FetchNext ''w2'' 20,
      Complete ''a'' JNull 30, Complete ''b'' JNull 50]"

definition twiceRegisteredOps :: "Op list" where
  "twiceRegisteredOps = [RegisterWorker ''w1'' noInfo 1, RegisterWorker ''w1'' noInfo 2]"

section \<open>Evaluation\<close>

lemmas model_defs =
  initialState_def zeroStats_def defaultConfig_def emitEvent_def orDefault_def newTask_def
  addTask_def getNextTask_def updateAverageProcessingTime_def startOf_def completeTask_def
  failTask_def retryCallback_def fireTimer_def getTaskStatus_def getQueueStats_def
  newWorker_def registerWorker_def updateWorkerHeartbeat_def incrementWorkerTaskCount_def
  unregisterWorker_def getActiveWorkers_def clearAll_def noClearAll_def Let_def

lemmas example_defs =
  plainRequest_def noInfo_def retryWindowOps_def staleOps_def skipOps_def priorityOps_def
  completionOps_def twiceRegisteredOps_def

section \<open>The lane scan\<close>

lemma scan_Cons:
  "getNextTask_scan wid now (p # ps) s =
     (if queues s p = [] then getNextTask_scan wid now ps s
      else if last (queues s p) = [] then getNextTask_scan wid now ps (popLane p s)
      else (case map_of (tasks s) (last (queues s p)) of
              None \<Rightarrow> getNextTask_scan wid now ps (popLane p s)
            | Some a \<Rightarrow> dispatch wid now (last (queues s p)) a (popLane p s)))"
  by (simp add: Let_def dispatch_def popLane_def emitEvent_def split: option.splits)

lemma shrunk_refl: "shrunk q q"
  unfolding shrunk_def by (metis take_all order_refl)

lemma shrunk_pop: "shrunk q (q0(p := butlast (q0 p))) \<Longrightarrow> shrunk q q0"
  unfolding shrunk_def
proof
  fix p'
  assume h: "\<forall>p'. \<exists>k. q p' = take k ((q0(p := butlast (q0 p))) p')"
  then obtain k where k: "q p' = take k ((q0(p := butlast (q0 p))) p')" by blast
  show "\<exists>k. q p' = take k (q0 p')"
  proof (cases "p' = p")
    case True
    with k have "q p' = take k (take (length (q0 p) - 1) (q0 p))"
      by (simp add: butlast_conv_take)
    then have "q p' = take (min k (length (q0 p) - 1)) (q0 p')"
      using True by simp
    then show ?thesis by blast
  next
    case False
    with k show ?thesis by auto
  qed
qed

lemma shrunk_set: "shrunk q q0 \<Longrightarrow> set (q p) \<subseteq> set (q0 p)"
  unfolding shrunk_def by (metis set_take_subset)

lemma popLane_simps:
  "queues (popLane p s) = (queues s)(p := butlast (queues s p))"
  "tasks (popLane p s) = tasks s"
  "(popLane p s)\<lparr>queues := q\<rparr> = s\<lparr>queues := q\<rparr>"
  "popLane p s = s\<lparr>queues := (queues s)(p := butlast (queues s p))\<rparr>"
  by (simp_all add: popLane_def)

lemma scanResult_pop: "scanResult wid now (popLane p s) r \<Longrightarrow> scanResult wid now s r"
  unfolding scanResult_def popLane_simps(1,2,3)
  using shrunk_pop by blast

lemma scanResult_dispatch:
  assumes "map_of (tasks s) tid = Some a"
  shows "scanResult wid now s (dispatch wid now tid a (popLane p s))"
proof -
  have "shrunk ((queues s)(p := butlast (queues s p))) (queues s)"
    using shrunk_pop shrunk_refl by blast
  then show ?thesis
    unfolding scanResult_def popLane_simps(4) using assms by blast
qed

lemma scan_cases: "scanResult wid now s (getNextTask_scan wid now ps s)"
proof (induction ps arbitrary: s)
  case Nil
  have "getNextTask_scan wid now [] s = (None, s\<lparr>queues := queues s\<rparr>)" by simp
  then show ?case unfolding scanResult_def using shrunk_refl by blast
next
  case (Cons p ps)
  show ?case
  proof (cases "queues s p = []")
    case True
    then have "getNextTask_scan wid now (p # ps) s = getNextTask_scan wid now ps s"
      by (simp add: scan_Cons del: getNextTask_scan.simps)
    then show ?thesis using Cons.IH[of s] by simp
  next
    case ne: False
    show ?thesis
    proof (cases "last (queues s p) = [] \<or> map_of (tasks s) (last (queues s p)) = None")
      case True
      then have "getNextTask_scan wid now (p # ps) s = getNextTask_scan wid now ps (popLane p s)"
        using ne by (auto simp add: scan_Cons simp del: getNextTask_scan.simps)
      then show ?thesis using Cons.IH[of "popLane p s"] scanResult_pop by simp
    next
      case False
      then obtain a where a: "map_of (tasks s) (last (queues s p)) = Some a" by auto
      then have "getNextTask_scan wid now (p # ps) s = dispatch wid now (last (queues s p)) a (popLane p s)"
        using ne False by (simp add: scan_Cons del: getNextTask_scan.simps)
      then show ?thesis using scanResult_dispatch[OF a] by simp
    qed
  qed
qed

section \<open>Projections of the operations\<close>

lemma dispatch_simps:
  "tasks (snd (dispatch wid now tid a s)) = tasks s"
  "timers (snd (dispatch wid now tid a s)) = timers s"
  "queues (snd (dispatch wid now tid a s)) = queues s"
  "fst (dispatch wid now tid a s)
     = Some ((heap s ! a)\<lparr>status := Processing, workerId := Some wid,
                            startedAt := Some now, updatedAt := now\<rparr>)"
  by (simp_all add: dispatch_def Let_def)

lemma addTask_simps:
  "tasks (snd (addTask cfg now newId taskData prio s)) = AList.update newId (length (heap s)) (tasks s)"
  "timers (snd (addTask cfg now newId taskData prio s)) = timers s"
  "queues (snd (addTask cfg now newId taskData prio s)) = (queues s)(prio := newId # queues s prio)"
  "heap (snd (addTask cfg now newId taskData prio s)) = heap s @ [newTask cfg now newId taskData prio]"
  by (simp_all add: addTask_def Let_def emitEvent_def)

lemma completeTask_simps:
  "tasks (snd (completeTask now tid res s)) = tasks s"
  "timers (snd (completeTask now tid res s)) = timers s"
  "queues (snd (completeTask now tid res s)) = queues s"
  by (simp_all add: completeTask_def Let_def emitEvent_def split: option.splits)

lemma failTask_simps:
  "tasks (snd (failTask cfg now tid message s)) = tasks s"
  "queues (snd (failTask cfg now tid message s)) = queues s"
  "set (timers (snd (failTask cfg now tid message s))) \<subseteq>
      set (timers s) \<union> {tm. timer_taskId tm = tid \<and> map_of (tasks s) tid \<noteq> None}"
  by (auto simp add: failTask_def Let_def emitEvent_def split: option.splits)

lemma failTask_found:
  assumes "map_of (tasks s) tid = Some a"
  shows "fst (failTask cfg now tid message s) = True"
    and "timers (snd (failTask cfg now tid message s)) =
       (if int (retries (heap s ! a)) < maxRetries (heap s ! a)
        then timers s @ [\<lparr>timer_task = a, timer_taskId = tid,
               timer_delay = cfg_retryDelay cfg * 2 ^ retries (heap s ! a), timer_setAt = now\<rparr>]
        else timers s)"
  using assms by (simp_all add: failTask_def Let_def emitEvent_def)

lemma failTask_heap:
  assumes "map_of (tasks s) tid = Some a"
  shows "heap (snd (failTask cfg now tid message s)) =
    (heap s)[a := (if int (retries (heap s ! a)) < maxRetries (heap s ! a)
       then (heap s ! a)\<lparr>status := Retrying, retries := retries (heap s ! a) + 1,
               lastError := Some message,
               nextRetryAt := Some (now + cfg_retryDelay cfg * 2 ^ retries (heap s ! a)),
               updatedAt := now\<rparr>
       else (heap s ! a)\<lparr>status := Failed, failedAt := Some now,
               lastError := Some message, updatedAt := now\<rparr>)]"
  using assms by (simp add: failTask_def Let_def emitEvent_def)

lemma retryCallback_simps:
  "tasks (retryCallback tm now s) = tasks s"
  "timers (retryCallback tm now s) = timers s"
  "heap (retryCallback tm now s)
     = (heap s)[timer_task tm := (heap s ! timer_task tm)\<lparr>status := Pending, updatedAt := now\<rparr>]"
  "queues (retryCallback tm now s)
     = (queues s)(priority (heap s ! timer_task tm)
          := timer_taskId tm # queues s (priority (heap s ! timer_task tm)))"
  by (simp_all add: retryCallback_def Let_def emitEvent_def)

lemma set_remove_nth: "set (take i xs @ drop (Suc i) xs) \<subseteq> set xs"
  by (auto dest: in_set_takeD in_set_dropD)

lemma nth_update_same: "f t = f (h ! a) \<Longrightarrow> f (h[a := t] ! b) = f (h ! b)"
  by (cases "a < length h") (simp_all add: nth_list_update list_update_beyond)

lemmas nth_update_retries = nth_update_same[of retries] nth_update_same[of maxRetries]

lemma nth_update_taskId:
  "taskId t = taskId (h ! a) \<Longrightarrow> taskId (h[a := t] ! b) = taskId (h ! b)"
  by (cases "a < length h") (simp_all add: nth_list_update list_update_beyond)

lemma scan_empty_lane:
  "queues s p = [] \<Longrightarrow> getNextTask_scan wid now (p # ps) s = getNextTask_scan wid now ps s"
  by (simp add: scan_Cons del: getNextTask_scan.simps)

lemma scan_stale:
  assumes "queues s p \<noteq> []" and "map_of (tasks s) (last (queues s p)) = None"
  shows "getNextTask_scan wid now (p # ps) s
           = getNextTask_scan wid now ps (s\<lparr>queues := (queues s)(p := butlast (queues s p))\<rparr>)"
  using assms by (simp add: Let_def)

lemma scan_other_lane:
  "p \<notin> set ps \<Longrightarrow> queues (snd (getNextTask_scan wid now ps s)) p = queues s p"
proof (induction ps arbitrary: s)
  case Nil
  then show ?case by simp
next
  case (Cons p' ps)
  then have ne: "p' \<noteq> p" and rest: "p \<notin> set ps" by auto
  have pop: "queues (popLane p' s) p = queues s p" using ne by (simp add: popLane_def)
  show ?case
    unfolding scan_Cons
    using Cons.IH[OF rest, of s] Cons.IH[OF rest, of "popLane p' s"] pop
    by (simp add: dispatch_simps split: option.splits)
qed

section \<open>Unknown ids\<close>

text \<open>
  Claim C6. For a task id with no entry in the task store, \<open>completeTask\<close> and
  \<open>failTask\<close> both return \<open>false\<close> (not found) and the queue manager is left exactly
  as it was: counters, lanes, in-flight list, task store, result store, pending timers and
  emitted events.
\<close>

theorem unknown_id_not_found:
  assumes "map_of (tasks s) tid = None"
  shows "completeTask now tid res s = (False, s) \<and> failTask cfg now tid message s = (False, s)"
  using assms by (simp add: completeTask_def failTask_def)

theorem unknown_id_not_found_witness:
  "map_of (tasks initialState) ''bogus'' = None \<and>
   completeTask 5 ''bogus'' JNull initialState = (False, initialState) \<and>
   failTask defaultConfig 5 ''bogus'' ''boom'' initialState = (False, initialState)"
proof -
  have h: "map_of (tasks initialState) ''bogus'' = None"
    by (simp add: initialState_def)
  show ?thesis
    using h unknown_id_not_found [OF h, of 5 JNull defaultConfig "''boom''"] by simp
qed

section \<open>Unregistering an unknown worker\<close>

text \<open>
  Claim C9. \<open>unregisterWorker\<close> does not look the worker up: for a worker id that is not
  in the registry the registry stays as it is, the active-worker counter is decremented all
  the same and a \<open>worker:unregistered\<close> event is emitted. On a fresh queue manager the
  counter becomes \<open>-1\<close>.
\<close>

theorem unregister_unknown_worker:
  assumes "map_of (workers s) wid = None"
  shows "workers (unregisterWorker now wid s) = workers s
       \<and> activeWorkers (stats (unregisterWorker now wid s)) = activeWorkers (stats s) - 1
       \<and> events (unregisterWorker now wid s) = events s @ [WorkerUnregistered wid now]
       \<and> activeWorkers (getQueueStats (unregisterWorker now wid initialState)) = - 1"
  using assms
  by (simp add: unregisterWorker_def Let_def emitEvent_def AList.delete_idem
        map_of_eq_None_iff getQueueStats_def initialState_def zeroStats_def)

theorem unregister_unknown_worker_witness:
  "map_of (workers initialState) ''w1'' = None
   \<and> workers (unregisterWorker 7 ''w1'' initialState) = []
   \<and> activeWorkers (stats (unregisterWorker 7 ''w1'' initialState)) = - 1
   \<and> events (unregisterWorker 7 ''w1'' initialState) = [WorkerUnregistered ''w1'' 7]"
proof -
  have h: "map_of (workers initialState) ''w1'' = None"
    by (simp add: initialState_def)
  show ?thesis
    using h unregister_unknown_worker [OF h, of 7]
    by (simp add: initialState_def zeroStats_def)
qed

section \<open>The default of maxRetries\<close>

text \<open>
  Claim C10. \<open>taskData.maxRetries || config.worker.maxRetries\<close>: a request that leaves
  \<open>maxRetries\<close> out, and a request that passes \<open>0\<close>, both create a task whose
  \<open>maxRetries\<close> is the configured default, in the returned task and in the stored one;
  under the default configuration that is 3. An explicit 0 does not give a task that never
  retries.
\<close>

theorem maxRetries_zero_is_default:
  assumes "req_maxRetries taskData = None \<or> req_maxRetries taskData = Some 0"
  shows "maxRetries (fst (addTask cfg now newId taskData prio s)) = cfg_maxRetries cfg
       \<and> map_of (tasks (snd (addTask cfg now newId taskData prio s))) newId
           = Some (length (heap s))
       \<and> maxRetries (heap (snd (addTask cfg now newId taskData prio s)) ! length (heap s))
           = cfg_maxRetries cfg
       \<and> cfg_maxRetries defaultConfig = 3"
  using assms
  by (auto simp add: addTask_def Let_def newTask_def orDefault_def emitEvent_def
        AList.update_conv' defaultConfig_def)

theorem maxRetries_zero_is_default_witness:
  "maxRetries (fst (addTask defaultConfig 10 ''t1''
      \<lparr>req_type = Email, req_payload = None, req_priority = None, req_maxRetries = Some 0\<rparr>
      Normal initialState)) = 3"
proof -
  let ?req = "\<lparr>req_type = Email, req_payload = None, req_priority = None,
                 req_maxRetries = Some 0\<rparr>"
  have h: "req_maxRetries ?req = None \<or> req_maxRetries ?req = Some 0" by simp
  show ?thesis
    using maxRetries_zero_is_default [OF h, of defaultConfig 10 "''t1''" Normal initialState]
    by simp
qed

section \<open>The counters add up\<close>

lemma balance_queues [simp]: "balance (s\<lparr>queues := q\<rparr>) = balance s"
  by (simp add: balance_def)

lemma balance_dispatch: "balance (snd (dispatch wid now tid a s)) = balance s"
  by (simp add: balance_def dispatch_def Let_def)

lemma balance_getNextTask: "balance (snd (getNextTask wid now s)) = balance s"
proof -
  have "scanResult wid now s (getNextTask wid now s)"
    unfolding getNextTask_def by (rule scan_cases)
  then show ?thesis
    unfolding scanResult_def by (auto simp: balance_dispatch)
qed

lemma balance_addTask: "balance (snd (addTask cfg now newId taskData prio s)) = balance s"
  by (simp add: balance_def addTask_def Let_def emitEvent_def)

lemma balance_completeTask: "balance (snd (completeTask now tid res s)) = balance s"
  by (simp add: balance_def completeTask_def Let_def emitEvent_def
        updateAverageProcessingTime_def split: option.splits)

lemma balance_failTask: "balance (snd (failTask cfg now tid message s)) = balance s"
  by (simp add: balance_def failTask_def Let_def emitEvent_def split: option.splits)

lemma balance_fireTimer: "balance (fireTimer now i s) = balance s"
  by (auto simp add: balance_def fireTimer_def retryCallback_def Let_def emitEvent_def)

lemma balance_step: "\<not> isClearAll op \<Longrightarrow> balance (step cfg op s) = balance s"
  by (cases op)
     (simp_all add: balance_addTask balance_getNextTask balance_completeTask balance_failTask
        balance_fireTimer,
      simp_all add: balance_def registerWorker_def updateWorkerHeartbeat_def
        incrementWorkerTaskCount_def unregisterWorker_def Let_def emitEvent_def
        split: option.splits)

lemma balance_exec: "noClearAll ops \<Longrightarrow> balance (exec cfg ops s) = balance s"
  by (induction ops arbitrary: s) (auto simp: noClearAll_def balance_step split: if_splits)

lemma balance_init: "balance initialState = 0"
  by (simp add: balance_def initialState_def zeroStats_def)

text \<open>
  Claim C2, as stated, fails. Submit one task, fetch it, fail it once: the task has status
  \<open>retrying\<close> and waits for its timer, \<open>failTask\<close> has already decremented
  \<open>processingTasks\<close> and nothing has been incremented yet, so the four counters
  add up to 0 while \<open>tasksCreated\<close> is 1.
\<close>

theorem retry_window_sum_counterexample:
  "map_option status (getTaskStatus ''a'' (exec defaultConfig retryWindowOps initialState))
     = Some Retrying
   \<and> pendingTasks (getQueueStats (exec defaultConfig retryWindowOps initialState))
     + processingTasks (getQueueStats (exec defaultConfig retryWindowOps initialState))
     + completedTasks (getQueueStats (exec defaultConfig retryWindowOps initialState))
     + failedTasks (getQueueStats (exec defaultConfig retryWindowOps initialState))
     \<noteq> tasksCreated (getQueueStats (exec defaultConfig retryWindowOps initialState))"
  by (simp add: model_defs example_defs)

text \<open>
  Claim C2, amended. At every point of an execution from the initial state without
  \<open>clearAll\<close>, the pending, processing, completed and failed counters plus the number of
  scheduled re-enqueues that have not fired yet equal \<open>tasksCreated\<close>. So the four
  counters add up to \<open>tasksCreated\<close> exactly when no task waits in its retry delay.
\<close>

theorem counters_balance: 
  assumes "noClearAll ops" and "s = exec cfg ops initialState"
  shows "pendingTasks (getQueueStats s) + processingTasks (getQueueStats s)
           + completedTasks (getQueueStats s) + failedTasks (getQueueStats s)
           + int (length (timers s)) = tasksCreated (getQueueStats s)"
proof -
  have "balance s = 0" using assms balance_exec balance_init by simp
  then show ?thesis by (simp add: balance_def getQueueStats_def)
qed

theorem counters_balance_witness:
  "noClearAll retryWindowOps
   \<and> pendingTasks (getQueueStats (exec defaultConfig retryWindowOps initialState))
     + processingTasks (getQueueStats (exec defaultConfig retryWindowOps initialState))
     + completedTasks (getQueueStats (exec defaultConfig retryWindowOps initialState))
     + failedTasks (getQueueStats (exec defaultConfig retryWindowOps initialState))
     + int (length (timers (exec defaultConfig retryWindowOps initialState)))
     = tasksCreated (getQueueStats (exec defaultConfig retryWindowOps initialState))"
proof -
  have h: "noClearAll retryWindowOps" by (simp add: noClearAll_def retryWindowOps_def)
  show ?thesis using h counters_balance [OF h refl, of defaultConfig] by simp
qed

section \<open>The running average\<close>

lemma completedTimes_append:
  "completedTimes (xs @ ys) = completedTimes xs @ completedTimes ys"
  by (induction xs rule: completedTimes.induct) simp_all

lemma avgInv_queues [simp]: "avgInv (s\<lparr>queues := q\<rparr>) = avgInv s"
  by (simp add: avgInv_def)

lemma avgInv_dispatch: "avgInv s \<Longrightarrow> avgInv (snd (dispatch wid now tid a s))"
  by (simp add: avgInv_def dispatch_def Let_def completedTimes_append)

lemma avgInv_getNextTask: "avgInv s \<Longrightarrow> avgInv (snd (getNextTask wid now s))"
proof -
  assume h: "avgInv s"
  have "scanResult wid now s (getNextTask wid now s)"
    unfolding getNextTask_def by (rule scan_cases)
  then show ?thesis
    unfolding scanResult_def using h by (auto simp: avgInv_dispatch)
qed

lemma avgInv_addTask: "avgInv s \<Longrightarrow> avgInv (snd (addTask cfg now newId taskData prio s))"
  by (simp add: avgInv_def addTask_def Let_def emitEvent_def completedTimes_append)

lemma avg_step:
  fixes avg d N :: real
  assumes "0 \<le> N"
  shows "(avg * (N + 1 - 1) + d) / (N + 1) * (N + 1) = avg * N + d"
proof -
  have "N + 1 \<noteq> 0" using assms by linarith
  then show ?thesis by simp
qed

lemma updateAverage_mean:
  assumes "completedTasks st = int (Suc n)" and "avgProcessingTime st * real n = S"
  shows "avgProcessingTime (updateAverageProcessingTime d st) * real (Suc n) = S + real_of_int d"
    and "completedTasks (updateAverageProcessingTime d st) = int (Suc n)"
proof -
  have c: "real_of_int (completedTasks st) = real n + 1" using assms(1) by simp
  have nz: "completedTasks st \<noteq> 0" using assms(1) by simp
  have "avgProcessingTime (updateAverageProcessingTime d st)
          = (avgProcessingTime st * (real n + 1 - 1) + real_of_int d) / (real n + 1)"
    using nz c by (simp add: updateAverageProcessingTime_def Let_def)
  then have "avgProcessingTime (updateAverageProcessingTime d st) * (real n + 1)
          = avgProcessingTime st * real n + real_of_int d"
    using avg_step[of "real n" "avgProcessingTime st" "real_of_int d"] by simp
  then show "avgProcessingTime (updateAverageProcessingTime d st) * real (Suc n) = S + real_of_int d"
    using assms(2) by (simp add: add.commute)
  show "completedTasks (updateAverageProcessingTime d st) = int (Suc n)"
    using assms(1) by (simp add: updateAverageProcessingTime_def Let_def)
qed

lemma startOf_completed [simp]:
  "startOf (t\<lparr>status := st, completedAt := c, updatedAt := u\<rparr>) = startOf t"
  by (simp add: startOf_def split: option.splits)

lemma completeTask_found:
  assumes "map_of (tasks s) tid = Some a"
  shows "stats (snd (completeTask now tid res s))
           = updateAverageProcessingTime (now - startOf (heap s ! a))
               ((stats s)\<lparr>processingTasks := processingTasks (stats s) - 1,
                          completedTasks := completedTasks (stats s) + 1\<rparr>)"
    and "events (snd (completeTask now tid res s))
           = events s @ [TaskCompleted tid (taskType (heap s ! a)) (now - startOf (heap s ! a)) now]"
  using assms by (simp_all add: completeTask_def Let_def emitEvent_def)

lemma avgInv_completeTask: "avgInv s \<Longrightarrow> avgInv (snd (completeTask now tid res s))"
proof (cases "map_of (tasks s) tid")
  case None
  assume "avgInv s"
  then show ?thesis using None by (simp add: completeTask_def)
next
  case (Some a)
  assume h: "avgInv s"
  let ?ds = "completedTimes (events s)"
  let ?d = "now - startOf (heap s ! a)"
  let ?st = "(stats s)\<lparr>processingTasks := processingTasks (stats s) - 1,
                        completedTasks := completedTasks (stats s) + 1\<rparr>"
  from h have c: "completedTasks ?st = int (Suc (length ?ds))"
    and av: "avgProcessingTime ?st * real (length ?ds) = real_of_int (sum_list ?ds)"
    by (simp_all add: avgInv_def)
  note m = updateAverage_mean[OF c av, of ?d]
  have ev: "completedTimes (events (snd (completeTask now tid res s))) = ?ds @ [?d]"
    by (simp add: completeTask_found(2)[OF Some] completedTimes_append)
  show ?thesis
    unfolding avgInv_def ev completeTask_found(1)[OF Some]
    using m by simp
qed

lemma avgInv_failTask: "avgInv s \<Longrightarrow> avgInv (snd (failTask cfg now tid message s))"
  by (simp add: avgInv_def failTask_def Let_def emitEvent_def completedTimes_append
        split: option.splits)

lemma avgInv_fireTimer: "avgInv s \<Longrightarrow> avgInv (fireTimer now i s)"
  by (simp add: avgInv_def fireTimer_def retryCallback_def Let_def emitEvent_def
        completedTimes_append)

lemma avgInv_step: "\<not> isClearAll op \<Longrightarrow> avgInv s \<Longrightarrow> avgInv (step cfg op s)"
  by (cases op)
     (simp_all add: avgInv_addTask avgInv_getNextTask avgInv_completeTask avgInv_failTask
        avgInv_fireTimer,
      simp_all add: avgInv_def registerWorker_def updateWorkerHeartbeat_def
        incrementWorkerTaskCount_def unregisterWorker_def Let_def emitEvent_def
        completedTimes_append split: option.splits)

lemma avgInv_exec: "noClearAll ops \<Longrightarrow> avgInv s \<Longrightarrow> avgInv (exec cfg ops s)"
  by (induction ops arbitrary: s) (auto simp: noClearAll_def avgInv_step split: if_splits)

lemma avgInv_init: "avgInv initialState"
  by (simp add: avgInv_def initialState_def zeroStats_def)

text \<open>
  Claim C4. In an execution from the initial state without \<open>clearAll\<close>, let
  \<open>ds\<close> be the processing times of the completions so far, in order (other operations
  interleaved at will). If there is at least one, \<open>completedTasks\<close> is their number
  and \<open>avgProcessingTime\<close> is their arithmetic mean. Numbers are exact reals here:
  the rounding of floating-point arithmetic is not part of the model.
\<close>

theorem average_is_mean:
  assumes "noClearAll ops" and "s = exec cfg ops initialState"
    and "ds = completedTimes (events s)" and "ds \<noteq> []"
  shows "completedTasks (getQueueStats s) = int (length ds) \<and>
         avgProcessingTime (getQueueStats s) = real_of_int (sum_list ds) / real (length ds)"
proof -
  have "avgInv s" using assms(1,2) avgInv_exec avgInv_init by simp
  moreover have "real (length ds) \<noteq> 0" using assms(4) by simp
  ultimately show ?thesis
    using assms(3) by (simp add: avgInv_def getQueueStats_def field_simps)
qed

theorem average_is_mean_witness:
  "noClearAll completionOps
   \<and> completedTimes (events (exec defaultConfig completionOps initialState)) = [10, 30]
   \<and> avgProcessingTime (getQueueStats (exec defaultConfig completionOps initialState)) = 20"
proof -
  have h: "noClearAll completionOps" by (simp add: noClearAll_def example_defs)
  have ds: "completedTimes (events (exec defaultConfig completionOps initialState)) = [10, 30]"
    by (simp add: model_defs example_defs)
  have ne: "completedTimes (events (exec defaultConfig completionOps initialState)) \<noteq> []"
    using ds by simp
  show ?thesis using h ds average_is_mean [OF h refl refl ne] by simp
qed

section \<open>Well-formed store\<close>

lemma wfHeapD:
  "wfHeap s \<Longrightarrow> map_of (tasks s) tid = Some a \<Longrightarrow> a < length (heap s) \<and> taskId (heap s ! a) = tid"
  by (simp add: wfHeap_def)

lemma wfHeap_queues [simp]: "wfHeap (s\<lparr>queues := q\<rparr>) = wfHeap s"
  by (simp add: wfHeap_def)

lemma wfHeap_dispatch: "wfHeap s \<Longrightarrow> wfHeap (snd (dispatch wid now tid a s))"
  by (simp add: wfHeap_def dispatch_def Let_def nth_update_taskId)

lemma wfHeap_getNextTask: "wfHeap s \<Longrightarrow> wfHeap (snd (getNextTask wid now s))"
proof -
  assume h: "wfHeap s"
  have "scanResult wid now s (getNextTask wid now s)"
    unfolding getNextTask_def by (rule scan_cases)
  then show ?thesis
    unfolding scanResult_def using h by (auto simp: wfHeap_dispatch)
qed

lemma wfHeap_addTask: "wfHeap s \<Longrightarrow> wfHeap (snd (addTask cfg now newId taskData prio s))"
  by (auto simp add: wfHeap_def addTask_def Let_def emitEvent_def AList.update_conv'
        nth_append newTask_def less_Suc_eq)

lemma wfHeap_completeTask: "wfHeap s \<Longrightarrow> wfHeap (snd (completeTask now tid res s))"
  by (simp add: wfHeap_def completeTask_def Let_def emitEvent_def nth_update_taskId
        split: option.splits)

lemma wfHeap_failTask: "wfHeap s \<Longrightarrow> wfHeap (snd (failTask cfg now tid message s))"
  by (auto simp add: wfHeap_def failTask_def Let_def emitEvent_def nth_update_taskId
        split: option.splits)

lemma wfHeap_retryCallback:
  assumes "wfHeap s"
  shows "wfHeap (retryCallback tm now s)"
  using assms unfolding wfHeap_def retryCallback_simps
  by (simp add: nth_update_taskId)

lemma wfHeap_timers_subset:
  assumes "wfHeap s" and "set ts \<subseteq> set (timers s)"
  shows "wfHeap (s\<lparr>timers := ts\<rparr>)"
  using assms unfolding wfHeap_def by auto

lemma wfHeap_fireTimer:
  assumes "wfHeap s"
  shows "wfHeap (fireTimer now i s)"
proof -
  have "wfHeap (s\<lparr>timers := take i (timers s) @ drop (Suc i) (timers s)\<rparr>)"
    using assms set_remove_nth by (rule wfHeap_timers_subset)
  then have "wfHeap (retryCallback (timers s ! i) now
      (s\<lparr>timers := take i (timers s) @ drop (Suc i) (timers s)\<rparr>))"
    by (rule wfHeap_retryCallback)
  then show ?thesis using assms by (simp add: fireTimer_def)
qed

lemma wfHeap_clearAll: "wfHeap s \<Longrightarrow> wfHeap (clearAll s)"
  by (simp add: wfHeap_def clearAll_def)

lemma wfHeap_step: "wfHeap s \<Longrightarrow> wfHeap (step cfg op s)"
  by (cases op)
     (simp_all add: wfHeap_addTask wfHeap_getNextTask wfHeap_completeTask wfHeap_failTask
        wfHeap_fireTimer wfHeap_clearAll,
      simp_all add: wfHeap_def registerWorker_def updateWorkerHeartbeat_def
        incrementWorkerTaskCount_def unregisterWorker_def Let_def emitEvent_def
        split: option.splits)

lemma wfHeap_exec: "wfHeap s \<Longrightarrow> wfHeap (exec cfg ops s)"
  by (induction ops arbitrary: s) (auto simp: wfHeap_step)

lemma wfHeap_init: "wfHeap initialState"
  by (simp add: wfHeap_def initialState_def)

section \<open>Lane ids are known\<close>

lemma lanesKnown_shrunk:
  assumes "lanesKnown s" and "shrunk q (queues s)"
  shows "lanesKnown (s\<lparr>queues := q\<rparr>)"
proof -
  have "\<And>p tid. tid \<in> set (q p) \<Longrightarrow> tid \<in> set (queues s p)"
    using shrunk_set[OF assms(2)] by blast
  then show ?thesis using assms(1) unfolding lanesKnown_def by simp blast
qed

lemma lanesKnown_dispatch: "lanesKnown s \<Longrightarrow> lanesKnown (snd (dispatch wid now tid a s))"
  unfolding lanesKnown_def dispatch_simps by simp

lemma lanesKnown_getNextTask:
  assumes "lanesKnown s"
  shows "lanesKnown (snd (getNextTask wid now s))"
proof -
  have "scanResult wid now s (getNextTask wid now s)"
    unfolding getNextTask_def by (rule scan_cases)
  then obtain q where q: "shrunk q (queues s)"
    and r: "getNextTask wid now s = (None, s\<lparr>queues := q\<rparr>) \<or>
       (\<exists>tid a. getNextTask wid now s = dispatch wid now tid a (s\<lparr>queues := q\<rparr>))"
    unfolding scanResult_def by blast
  have k: "lanesKnown (s\<lparr>queues := q\<rparr>)" using assms q by (rule lanesKnown_shrunk)
  from r show ?thesis
  proof
    assume "getNextTask wid now s = (None, s\<lparr>queues := q\<rparr>)"
    then show ?thesis using k by simp
  next
    assume "\<exists>tid a. getNextTask wid now s = dispatch wid now tid a (s\<lparr>queues := q\<rparr>)"
    then obtain tid a where "getNextTask wid now s = dispatch wid now tid a (s\<lparr>queues := q\<rparr>)"
      by blast
    then show ?thesis using lanesKnown_dispatch[OF k] by simp
  qed
qed

lemma lanesKnown_addTask:
  assumes "lanesKnown s" and "newId \<noteq> []"
  shows "lanesKnown (snd (addTask cfg now newId taskData prio s))"
  using assms unfolding lanesKnown_def addTask_simps AList.update_conv'
  by auto

lemma lanesKnown_completeTask: "lanesKnown s \<Longrightarrow> lanesKnown (snd (completeTask now tid res s))"
  unfolding lanesKnown_def completeTask_simps by simp

lemma lanesKnown_failTask:
  assumes "lanesKnown s"
  shows "lanesKnown (snd (failTask cfg now tid message s))"
  using assms failTask_simps(3)[of cfg now tid message s]
  unfolding lanesKnown_def failTask_simps(1,2) by blast

lemma lanesKnown_fireTimer:
  assumes "lanesKnown s"
  shows "lanesKnown (fireTimer now i s)"
proof (cases "i < length (timers s) \<and> timer_setAt (timers s ! i) + timer_delay (timers s ! i) \<le> now")
  case False
  then show ?thesis using assms by (auto simp: fireTimer_def)
next
  case True
  let ?tm = "timers s ! i"
  let ?s1 = "s\<lparr>timers := take i (timers s) @ drop (Suc i) (timers s)\<rparr>"
  have tm: "map_of (tasks s) (timer_taskId ?tm) \<noteq> None"
    using assms True unfolding lanesKnown_def by (meson nth_mem)
  have k1: "lanesKnown ?s1"
    using assms set_remove_nth[of i "timers s"] unfolding lanesKnown_def
    by (auto simp del: set_append)
  have "lanesKnown (retryCallback ?tm now ?s1)"
    using k1 tm unfolding lanesKnown_def retryCallback_simps by auto
  then show ?thesis using True by (simp add: fireTimer_def)
qed

lemma lanesKnown_step:
  "\<not> isClearAll op \<Longrightarrow> \<not> emptyIdSubmit op \<Longrightarrow> lanesKnown s \<Longrightarrow> lanesKnown (step cfg op s)"
  by (cases op)
     (simp_all add: lanesKnown_addTask lanesKnown_getNextTask lanesKnown_completeTask
        lanesKnown_failTask lanesKnown_fireTimer,
      simp_all add: lanesKnown_def registerWorker_def updateWorkerHeartbeat_def
        incrementWorkerTaskCount_def unregisterWorker_def Let_def emitEvent_def
        split: option.splits)

lemma lanesKnown_exec:
  "noClearAll ops \<Longrightarrow> nonEmptyIds ops \<Longrightarrow> lanesKnown s \<Longrightarrow> lanesKnown (exec cfg ops s)"
  by (induction ops arbitrary: s)
     (auto simp: noClearAll_def nonEmptyIds_def lanesKnown_step split: if_splits)

lemma lanesKnown_init: "lanesKnown initialState"
  by (simp add: lanesKnown_def initialState_def)

section \<open>Priority and FIFO order\<close>

lemma scan_known_lane:
  assumes "wfHeap s" and "lanesKnown s" and "queues s p \<noteq> []"
  shows "\<exists>t. fst (getNextTask_scan wid now (p # ps) s) = Some t
           \<and> taskId t = last (queues s p) \<and> status t = Processing
           \<and> queues (snd (getNextTask_scan wid now (p # ps) s))
               = (queues s)(p := butlast (queues s p))"
proof -
  let ?tid = "last (queues s p)"
  have mem: "?tid \<in> set (queues s p)" using assms(3) by simp
  then obtain a where a: "map_of (tasks s) ?tid = Some a"
    using assms(2) unfolding lanesKnown_def by blast
  have ne: "?tid \<noteq> []" using a assms(2) unfolding lanesKnown_def by auto
  have r: "getNextTask_scan wid now (p # ps) s = dispatch wid now ?tid a (popLane p s)"
    using assms(3) ne a by (simp add: scan_Cons del: getNextTask_scan.simps)
  have "taskId (heap s ! a) = ?tid" using wfHeapD[OF assms(1) a] by simp
  then show ?thesis
    unfolding r dispatch_simps by (simp add: popLane_def)
qed

lemma fetch_next_pending:
  assumes wf: "wfHeap s" and lk: "lanesKnown s"
  shows "case nextPending s of
            None \<Rightarrow> getNextTask wid now s = (None, s)
          | Some (p, tid) \<Rightarrow>
              (\<exists>t. fst (getNextTask wid now s) = Some t \<and> taskId t = tid
                   \<and> status t = Processing
                   \<and> queues (snd (getNextTask wid now s))
                       = (queues s)(p := butlast (queues s p)))"
  proof (cases "queues s High = []")
    case False
    then show ?thesis
      using scan_known_lane[OF wf lk False, of wid now "[Normal, Low]"]
      by (simp add: nextPending_def getNextTask_def del: getNextTask_scan.simps)
  next
    case hi: True
    show ?thesis
    proof (cases "queues s Normal = []")
      case False
      then show ?thesis
        using hi scan_known_lane[OF wf lk False, of wid now "[Low]"]
        by (simp add: nextPending_def getNextTask_def scan_empty_lane
              del: getNextTask_scan.simps)
    next
      case no: True
      show ?thesis
      proof (cases "queues s Low = []")
        case False
        then show ?thesis
          using hi no scan_known_lane[OF wf lk False, of wid now "[]"]
          by (simp add: nextPending_def getNextTask_def scan_empty_lane
                del: getNextTask_scan.simps)
      next
        case True
        then show ?thesis
          using hi no by (simp add: nextPending_def getNextTask_def)
      qed
    qed
  qed

lemma rev_last_butlast:
  "xs \<noteq> [] \<Longrightarrow> rev xs = last xs # rev (butlast xs)"
proof -
  assume "xs \<noteq> []"
  then have "xs = butlast xs @ [last xs]" by simp
  then have "rev xs = rev (butlast xs @ [last xs])" by simp
  then show ?thesis by simp
qed

lemma pendingOrder_next:
  "nextPending s = None \<Longrightarrow> pendingOrder s = []"
  "nextPending s = Some (p, tid) \<Longrightarrow>
     pendingOrder s = tid # pendingOrder (s\<lparr>queues := (queues s)(p := butlast (queues s p))\<rparr>)"
proof -
  show "nextPending s = None \<Longrightarrow> pendingOrder s = []"
    by (simp add: nextPending_def pendingOrder_def split: if_splits)
  assume np: "nextPending s = Some (p, tid)"
  show "pendingOrder s = tid # pendingOrder (s\<lparr>queues := (queues s)(p := butlast (queues s p))\<rparr>)"
  proof (cases "queues s High = []")
    case False
    then have "p = High" "tid = last (queues s High)"
      using np by (simp_all add: nextPending_def)
    then show ?thesis
      using rev_last_butlast[OF False] by (simp add: pendingOrder_def)
  next
    case hi: True
    show ?thesis
    proof (cases "queues s Normal = []")
      case False
      then have "p = Normal" "tid = last (queues s Normal)"
        using np hi by (simp_all add: nextPending_def)
      then show ?thesis
        using hi rev_last_butlast[OF False] by (simp add: pendingOrder_def)
    next
      case no: True
      have lo: "queues s Low \<noteq> []"
        using np hi no by (simp add: nextPending_def split: if_splits)
      then have "p = Low" "tid = last (queues s Low)"
        using np hi no by (simp_all add: nextPending_def)
      then show ?thesis
        using hi no rev_last_butlast[OF lo] by (simp add: pendingOrder_def)
    qed
  qed
qed

lemma pendingOrder_queues:
  "queues s' = queues s \<Longrightarrow> pendingOrder s' = pendingOrder s"
  by (simp add: pendingOrder_def)

lemma fetchIds_order:
  "wfHeap s \<Longrightarrow> lanesKnown s \<Longrightarrow> fetchIds calls s = take (length calls) (pendingOrder s)"
proof (induction calls arbitrary: s)
  case Nil
  then show ?case by simp
next
  case (Cons c calls)
  obtain wid now where c: "c = (wid, now)" by (cases c)
  note step = fetch_next_pending[OF Cons.prems, of wid now]
  show ?case
  proof (cases "nextPending s")
    case None
    then have g: "getNextTask wid now s = (None, s)" using step by simp
    have "pendingOrder s = []" using None by (rule pendingOrder_next(1))
    then show ?thesis using g c Cons.IH[OF Cons.prems] by simp
  next
    case (Some pt)
    obtain p tid where pt: "pt = (p, tid)" by (cases pt)
    obtain t where t: "fst (getNextTask wid now s) = Some t" "taskId t = tid"
      and q: "queues (snd (getNextTask wid now s)) = (queues s)(p := butlast (queues s p))"
      using step Some pt by auto
    obtain r s' where g: "getNextTask wid now s = (r, s')" by (cases "getNextTask wid now s")
    have r: "r = Some t" using t(1) g by simp
    have s': "s' = snd (getNextTask wid now s)" using g by simp
    have wf': "wfHeap s'" unfolding s' using Cons.prems(1) by (rule wfHeap_getNextTask)
    have lk': "lanesKnown s'" unfolding s' using Cons.prems(2) by (rule lanesKnown_getNextTask)
    have "queues s' = queues (s\<lparr>queues := (queues s)(p := butlast (queues s p))\<rparr>)"
      using q s' by simp
    then have "pendingOrder s' = pendingOrder (s\<lparr>queues := (queues s)(p := butlast (queues s p))\<rparr>)"
      by (rule pendingOrder_queues)
    then have po: "pendingOrder s = tid # pendingOrder s'"
      using pendingOrder_next(2)[of s p tid] Some pt by simp
    have "fetchIds (c # calls) s = taskId t # fetchIds calls s'"
      using g r c by simp
    then show ?thesis using Cons.IH[OF wf' lk'] po t(2) by simp
  qed
qed

text \<open>
  Claim C1. Let \<open>s\<close> be reached from the initial state by any execution without
  \<open>clearAll\<close> (submissions, fetches, completions, failures, retry timers, worker calls)
  whose task ids are non-empty, as those of \<open>uuidv4\<close> are. Then \<open>getNextTask\<close>
  returns the oldest id of the high lane if that lane is non-empty, else the oldest of the
  normal lane, else the oldest of the low lane, removes exactly that id from its lane, and
  returns no task and changes nothing when all lanes are empty. Any number of fetches in a
  row return the pending ids in the order high lane oldest first, then normal lane oldest
  first, then low lane oldest first. \<open>addTask\<close> and the retry callback both put the id
  at the young end of its lane, behind every id that is pending there.
\<close>

theorem fetch_order:
  assumes "noClearAll ops" and "nonEmptyIds ops" and "s = exec cfg ops initialState"
  shows "(case nextPending s of
            None \<Rightarrow> getNextTask wid now s = (None, s)
          | Some (p, tid) \<Rightarrow>
              (\<exists>t. fst (getNextTask wid now s) = Some t \<and> taskId t = tid
                   \<and> status t = Processing
                   \<and> queues (snd (getNextTask wid now s))
                       = (queues s)(p := butlast (queues s p))))
       \<and> fetchIds calls s
           = take (length calls)
               (rev (queues s High) @ rev (queues s Normal) @ rev (queues s Low))
       \<and> queues (snd (addTask cfg now newId taskData prio s))
           = (queues s)(prio := newId # queues s prio)
       \<and> (i < length (timers s)
            \<and> timer_setAt (timers s ! i) + timer_delay (timers s ! i) \<le> now \<longrightarrow>
          queues (fireTimer now i s)
           = (queues s)(priority (heap s ! timer_task (timers s ! i))
               := timer_taskId (timers s ! i)
                    # queues s (priority (heap s ! timer_task (timers s ! i)))))"
proof -
  have wf: "wfHeap s" using assms(3) wfHeap_exec wfHeap_init by simp
  have lk: "lanesKnown s" using assms lanesKnown_exec lanesKnown_init by simp
  note fetch = fetch_next_pending[OF wf lk, of wid now]
  have many: "fetchIds calls s
           = take (length calls)
               (rev (queues s High) @ rev (queues s Normal) @ rev (queues s Low))"
    using fetchIds_order[OF wf lk, of calls] by (simp add: pendingOrder_def)
  have add: "queues (snd (addTask cfg now newId taskData prio s))
           = (queues s)(prio := newId # queues s prio)"
    by (rule addTask_simps(3))
  have fire: "i < length (timers s)
            \<and> timer_setAt (timers s ! i) + timer_delay (timers s ! i) \<le> now \<longrightarrow>
          queues (fireTimer now i s)
           = (queues s)(priority (heap s ! timer_task (timers s ! i))
               := timer_taskId (timers s ! i)
                    # queues s (priority (heap s ! timer_task (timers s ! i))))"
    by (simp add: fireTimer_def retryCallback_simps)
  from fetch many add fire show ?thesis by blast
qed

theorem fetch_order_witness:
  "noClearAll priorityOps \<and> nonEmptyIds priorityOps
   \<and> nextPending (exec defaultConfig priorityOps initialState) = Some (High, ''b'')
   \<and> (\<exists>t. fst (getNextTask ''w1'' 4 (exec defaultConfig priorityOps initialState)) = Some t
          \<and> taskId t = ''b'')
   \<and> fetchIds [(''w1'', 4), (''w2'', 5), (''w1'', 6)]
        (exec defaultConfig priorityOps initialState) = [''b'', ''c'', ''a'']"
proof -
  have h1: "noClearAll priorityOps" by (simp add: noClearAll_def example_defs)
  have h2: "nonEmptyIds priorityOps" by (simp add: nonEmptyIds_def example_defs)
  have np: "nextPending (exec defaultConfig priorityOps initialState) = Some (High, ''b'')"
    by (simp add: nextPending_def model_defs example_defs)
  have q: "queues (exec defaultConfig priorityOps initialState) High = [''c'', ''b'']"
    "queues (exec defaultConfig priorityOps initialState) Normal = []"
    "queues (exec defaultConfig priorityOps initialState) Low = [''a'']"
    by (simp_all add: model_defs example_defs)
  show ?thesis
    using h1 h2 np q
      fetch_order [OF h1 h2 refl, where cfg = defaultConfig and wid = "''w1''" and now = 4
          and newId = "''d''" and taskData = plainRequest and prio = Low and i = 0
          and calls = "[(''w1'', 4), (''w2'', 5), (''w1'', 6)]"]
    by simp blast
qed

section \<open>Retries and backoff\<close>

lemma retriesInv_same: "sameRetries s s' \<Longrightarrow> retriesInv s fc \<Longrightarrow> retriesInv s' fc"
  unfolding sameRetries_def retriesInv_def by (metis (no_types, lifting))

lemma sameRetries_refl [simp]: "sameRetries s s"
  by (simp add: sameRetries_def)

lemma sameRetries_queues [simp]: "sameRetries s (s\<lparr>queues := q\<rparr>)"
  by (simp add: sameRetries_def)

lemma sameRetries_trans: "sameRetries s s1 \<Longrightarrow> sameRetries s1 s2 \<Longrightarrow> sameRetries s s2"
  by (simp add: sameRetries_def)

lemma sameRetries_dispatch: "sameRetries s (snd (dispatch wid now tid a s))"
  by (simp add: sameRetries_def dispatch_def Let_def nth_update_retries)

lemma sameRetries_getNextTask: "sameRetries s (snd (getNextTask wid now s))"
proof -
  have "scanResult wid now s (getNextTask wid now s)"
    unfolding getNextTask_def by (rule scan_cases)
  then obtain q where
    r: "getNextTask wid now s = (None, s\<lparr>queues := q\<rparr>) \<or>
       (\<exists>tid a. getNextTask wid now s = dispatch wid now tid a (s\<lparr>queues := q\<rparr>))"
    unfolding scanResult_def by blast
  from r show ?thesis
  proof
    assume "getNextTask wid now s = (None, s\<lparr>queues := q\<rparr>)"
    then show ?thesis by simp
  next
    assume "\<exists>tid a. getNextTask wid now s = dispatch wid now tid a (s\<lparr>queues := q\<rparr>)"
    then obtain tid a where "getNextTask wid now s = dispatch wid now tid a (s\<lparr>queues := q\<rparr>)"
      by blast
    moreover have "sameRetries s (s\<lparr>queues := q\<rparr>)" by simp
    moreover have "sameRetries (s\<lparr>queues := q\<rparr>) (snd (dispatch wid now tid a (s\<lparr>queues := q\<rparr>)))"
      by (rule sameRetries_dispatch)
    ultimately show ?thesis
      using sameRetries_trans by metis
  qed
qed

lemma sameRetries_completeTask: "sameRetries s (snd (completeTask now tid res s))"
  by (simp add: sameRetries_def completeTask_def Let_def emitEvent_def nth_update_retries
        split: option.splits)

lemma sameRetries_fireTimer: "sameRetries s (fireTimer now i s)"
  by (simp add: sameRetries_def fireTimer_def retryCallback_def Let_def emitEvent_def
        nth_update_retries)

lemma sameRetries_clearAll: "sameRetries s (clearAll s)"
  by (simp add: sameRetries_def clearAll_def)

lemma retries_step_arith:
  fixes r k :: nat and m :: int
  assumes "r = min k (nat m)"
  shows "int r < m \<Longrightarrow> Suc r = min (Suc k) (nat m)"
    and "\<not> int r < m \<Longrightarrow> r = min (Suc k) (nat m)"
proof -
  show "int r < m \<Longrightarrow> Suc r = min (Suc k) (nat m)"
    using assms by arith
  show "\<not> int r < m \<Longrightarrow> r = min (Suc k) (nat m)"
    using assms by arith
qed

lemma retriesInv_failTask:
  assumes "wfHeap s" and "retriesInv s fc"
  shows "retriesInv (snd (failTask cfg now tid message s))
           (\<lambda>a. fc a + (if map_of (tasks s) tid = Some a then 1 else 0))"
proof (cases "map_of (tasks s) tid")
  case None
  then show ?thesis using assms(2) by (simp add: failTask_def)
next
  case (Some a)
  have a: "a < length (heap s)" using wfHeapD[OF assms(1) Some] by simp
  have ra: "retries (heap s ! a) = min (fc a) (nat (maxRetries (heap s ! a)))"
    using assms(2) a unfolding retriesInv_def by (metis (full_types))
  note ar = retries_step_arith[OF ra]
  show ?thesis
    unfolding retriesInv_def failTask_heap[OF Some]
  proof
    fix b
    show "if b < length ((heap s)[a := (if int (retries (heap s ! a)) < maxRetries (heap s ! a)
       then (heap s ! a)\<lparr>status := Retrying, retries := retries (heap s ! a) + 1,
               lastError := Some message,
               nextRetryAt := Some (now + cfg_retryDelay cfg * 2 ^ retries (heap s ! a)),
               updatedAt := now\<rparr>
       else (heap s ! a)\<lparr>status := Failed, failedAt := Some now,
               lastError := Some message, updatedAt := now\<rparr>)])
      then retries ((heap s)[a := (if int (retries (heap s ! a)) < maxRetries (heap s ! a)
       then (heap s ! a)\<lparr>status := Retrying, retries := retries (heap s ! a) + 1,
               lastError := Some message,
               nextRetryAt := Some (now + cfg_retryDelay cfg * 2 ^ retries (heap s ! a)),
               updatedAt := now\<rparr>
       else (heap s ! a)\<lparr>status := Failed, failedAt := Some now,
               lastError := Some message, updatedAt := now\<rparr>)] ! b)
          = min (fc b + (if map_of (tasks s) tid = Some b then 1 else 0))
              (nat (maxRetries ((heap s)[a := (if int (retries (heap s ! a)) < maxRetries (heap s ! a)
       then (heap s ! a)\<lparr>status := Retrying, retries := retries (heap s ! a) + 1,
               lastError := Some message,
               nextRetryAt := Some (now + cfg_retryDelay cfg * 2 ^ retries (heap s ! a)),
               updatedAt := now\<rparr>
       else (heap s ! a)\<lparr>status := Failed, failedAt := Some now,
               lastError := Some message, updatedAt := now\<rparr>)] ! b)))
      else fc b + (if map_of (tasks s) tid = Some b then 1 else 0) = 0"
    proof (cases "b = a")
      case True
      then show ?thesis using a Some ar by (simp add: nth_list_update)
    next
      case False
      have "if b < length (heap s)
          then retries (heap s ! b) = min (fc b) (nat (maxRetries (heap s ! b)))
          else fc b = 0"
        using assms(2) unfolding retriesInv_def by blast
      then show ?thesis using False Some by (simp add: nth_list_update)
    qed
  qed
qed

lemma retriesInv_addTask:
  assumes "retriesInv s fc"
  shows "retriesInv (snd (addTask cfg now newId taskData prio s)) fc"
  unfolding retriesInv_def addTask_simps
proof
  fix a
  have h: "if a < length (heap s)
          then retries (heap s ! a) = min (fc a) (nat (maxRetries (heap s ! a)))
          else fc a = 0"
    using assms unfolding retriesInv_def by blast
  show "if a < length (heap s @ [newTask cfg now newId taskData prio])
         then retries ((heap s @ [newTask cfg now newId taskData prio]) ! a) =
              min (fc a) (nat (maxRetries ((heap s @ [newTask cfg now newId taskData prio]) ! a)))
         else fc a = 0"
    using h by (auto simp: nth_append newTask_def less_Suc_eq)
qed

lemma retriesInv_step:
  assumes "wfHeap s" and "retriesInv s fc"
  shows "retriesInv (step cfg op s) (\<lambda>a. fc a + (if failHits op s a then 1 else 0))"
proof (cases op)
  case (Submit newId taskData prio now)
  then show ?thesis using retriesInv_addTask[OF assms(2)] by simp
next
  case (FetchNext wid now)
  then show ?thesis using retriesInv_same[OF sameRetries_getNextTask assms(2)] by simp
next
  case (Complete tid res now)
  then show ?thesis using retriesInv_same[OF sameRetries_completeTask assms(2)] by simp
next
  case (Fail tid message now)
  then show ?thesis using retriesInv_failTask[OF assms] by simp
next
  case (TimerFire i now)
  then show ?thesis using retriesInv_same[OF sameRetries_fireTimer assms(2)] by simp
next
  case ClearAll
  then show ?thesis using retriesInv_same[OF sameRetries_clearAll assms(2)] by simp
next
  case (RegisterWorker wid info now)
  have "sameRetries s (registerWorker now wid info s)"
    by (simp add: sameRetries_def registerWorker_def Let_def emitEvent_def)
  then show ?thesis using RegisterWorker retriesInv_same assms(2) by simp
next
  case (Heartbeat wid st cur now)
  have "sameRetries s (updateWorkerHeartbeat now wid st cur s)"
    by (simp add: sameRetries_def updateWorkerHeartbeat_def split: option.splits)
  then show ?thesis using Heartbeat retriesInv_same assms(2) by simp
next
  case (IncrementWorkerTaskCount wid)
  have "sameRetries s (incrementWorkerTaskCount wid s)"
    by (simp add: sameRetries_def incrementWorkerTaskCount_def split: option.splits)
  then show ?thesis using IncrementWorkerTaskCount retriesInv_same assms(2) by simp
next
  case (UnregisterWorker wid now)
  have "sameRetries s (unregisterWorker now wid s)"
    by (simp add: sameRetries_def unregisterWorker_def Let_def emitEvent_def)
  then show ?thesis using UnregisterWorker retriesInv_same assms(2) by simp
qed

lemma retriesInv_exec:
  "wfHeap s \<Longrightarrow> retriesInv s fc \<Longrightarrow>
     retriesInv (exec cfg ops s) (\<lambda>a. fc a + failCalls cfg ops s a)"
proof (induction ops arbitrary: s fc)
  case Nil
  then show ?case by simp
next
  case (Cons op ops)
  have "retriesInv (exec cfg ops (step cfg op s))
          (\<lambda>a. (fc a + (if failHits op s a then 1 else 0)) + failCalls cfg ops (step cfg op s) a)"
    using Cons.IH[OF wfHeap_step[OF Cons.prems(1)] retriesInv_step[OF Cons.prems]] .
  then show ?case by (simp add: add.assoc)
qed

lemma retriesInv_init: "retriesInv initialState (\<lambda>a. 0)"
  by (simp add: retriesInv_def initialState_def)

lemma retries_count:
  assumes "s = exec cfg ops initialState" and "map_of (tasks s) tid = Some a"
  shows "a < length (heap s)"
    and "retries (heap s ! a) = min (failCalls cfg ops initialState a) (nat (maxRetries (heap s ! a)))"
proof -
  have wf: "wfHeap s" using assms(1) wfHeap_exec wfHeap_init by simp
  show a: "a < length (heap s)" using wfHeapD[OF wf assms(2)] by simp
  have "retriesInv s (\<lambda>a. 0 + failCalls cfg ops initialState a)"
    unfolding assms(1) using retriesInv_exec[OF wfHeap_init retriesInv_init] .
  then show "retries (heap s ! a) = min (failCalls cfg ops initialState a) (nat (maxRetries (heap s ! a)))"
    using a unfolding retriesInv_def by (metis (full_types) add_0)
qed

text \<open>
  Claim C3. Let \<open>s\<close> be reached from the initial state by any execution, let the
  task stored under \<open>tid\<close> be the object at \<open>a\<close>, and let \<open>k\<close> be the
  number of \<open>failTask\<close> calls that object has had so far. The next \<open>failTask\<close>
  on it schedules a re-enqueue with delay \<open>retryDelay * 2 ^ k\<close> and sets status
  \<open>retrying\<close> if \<open>k < maxRetries\<close>; otherwise it schedules nothing and sets
  status \<open>failed\<close>. The task is marked \<open>failed\<close> exactly when its retry count
  at the call has reached \<open>maxRetries\<close>.
\<close>

theorem retry_backoff:
  assumes "s = exec cfg ops initialState"
    and "map_of (tasks s) tid = Some a"
    and "k = failCalls cfg ops initialState a"
    and "s' = snd (failTask cfg now tid message s)"
  shows "(if int k < maxRetries (heap s ! a)
          then timers s' = timers s @ [\<lparr>timer_task = a, timer_taskId = tid,
                   timer_delay = cfg_retryDelay cfg * 2 ^ k, timer_setAt = now\<rparr>]
             \<and> status (heap s' ! a) = Retrying
             \<and> retries (heap s' ! a) = k + 1
          else timers s' = timers s \<and> status (heap s' ! a) = Failed
             \<and> retries (heap s' ! a) = retries (heap s ! a))
       \<and> (status (heap s' ! a) = Failed \<longleftrightarrow> maxRetries (heap s ! a) \<le> int (retries (heap s ! a)))"
proof -
  note rc = retries_count[OF assms(1,2)]
  have r: "retries (heap s ! a) = min k (nat (maxRetries (heap s ! a)))"
    using rc(2) assms(3) by simp
  have iff: "int k < maxRetries (heap s ! a) \<longleftrightarrow> int (retries (heap s ! a)) < maxRetries (heap s ! a)"
    using r by arith
  have eq: "int k < maxRetries (heap s ! a) \<Longrightarrow> retries (heap s ! a) = k"
    using r by arith
  show ?thesis
    unfolding assms(4) failTask_found(2)[OF assms(2)] failTask_heap[OF assms(2)]
    using rc(1) iff eq by (simp add: nth_list_update)
qed

theorem retry_backoff_witness:
  "map_of (tasks (exec defaultConfig retryWindowOps initialState)) ''a'' = Some 0
   \<and> failCalls defaultConfig retryWindowOps initialState 0 = 1
   \<and> timers (snd (failTask defaultConfig 2000 ''a'' ''boom''
        (exec defaultConfig retryWindowOps initialState)))
      = timers (exec defaultConfig retryWindowOps initialState)
        @ [\<lparr>timer_task = 0, timer_taskId = ''a'', timer_delay = 2000, timer_setAt = 2000\<rparr>]"
proof -
  have h: "map_of (tasks (exec defaultConfig retryWindowOps initialState)) ''a'' = Some 0"
    by (simp add: model_defs example_defs)
  have k: "failCalls defaultConfig retryWindowOps initialState 0 = 1"
    by (simp add: model_defs example_defs)
  have m: "maxRetries (heap (exec defaultConfig retryWindowOps initialState) ! 0) = 3"
    by (simp add: model_defs example_defs)
  show ?thesis
    using h k m retry_backoff [OF refl h refl refl, of 2000 "''boom''"]
    by (simp add: defaultConfig_def)
qed

section \<open>clearAll\<close>

text \<open>
  Claim C5, as stated, fails in its last part. Register the same worker id twice: the
  counter \<open>activeWorkers\<close> is 2 and the registry holds one record; \<open>clearAll\<close>
  sets the counter to the size of the registry, 1.
\<close>

theorem clearAll_activeWorkers_counterexample:
  "activeWorkers (getQueueStats (exec defaultConfig twiceRegisteredOps initialState)) = 2
   \<and> activeWorkers (getQueueStats (clearAll (exec defaultConfig twiceRegisteredOps initialState))) = 1
   \<and> activeWorkers (getQueueStats (clearAll (exec defaultConfig twiceRegisteredOps initialState)))
       \<noteq> activeWorkers (getQueueStats (exec defaultConfig twiceRegisteredOps initialState))"
  by (simp add: model_defs example_defs)

text \<open>
  Claim C5, amended. \<open>clearAll\<close> sets the created, pending, processing, completed,
  failed and retried counters, the running average, the three lane lengths and the
  in-flight count to zero, empties the lanes, the in-flight list and the task and result
  stores, and leaves the worker registry as it is. The reported active-worker count after
  \<open>clearAll\<close> is the number of records in the registry; it is the value reported
  before whenever the counter agreed with the registry then.
\<close>

theorem clearAll_resets:
  "tasksCreated (getQueueStats (clearAll s)) = 0
   \<and> pendingTasks (getQueueStats (clearAll s)) = 0
   \<and> processingTasks (getQueueStats (clearAll s)) = 0
   \<and> completedTasks (getQueueStats (clearAll s)) = 0
   \<and> failedTasks (getQueueStats (clearAll s)) = 0
   \<and> retriedTasks (getQueueStats (clearAll s)) = 0
   \<and> avgProcessingTime (getQueueStats (clearAll s)) = 0
   \<and> queueLengths (getQueueStats (clearAll s)) = \<lparr>len_high = 0, len_normal = 0, len_low = 0\<rparr>
   \<and> processingCount (getQueueStats (clearAll s)) = 0
   \<and> queues (clearAll s) = (\<lambda>p. []) \<and> processing (clearAll s) = []
   \<and> tasks (clearAll s) = [] \<and> results (clearAll s) = []
   \<and> workers (clearAll s) = workers s
   \<and> activeWorkers (getQueueStats (clearAll s)) = int (length (getActiveWorkers s))
   \<and> (activeWorkers (getQueueStats s) = int (length (getActiveWorkers s)) \<longrightarrow>
        activeWorkers (getQueueStats (clearAll s)) = activeWorkers (getQueueStats s))"
  by (simp add: clearAll_def getQueueStats_def zeroStats_def getActiveWorkers_def)

theorem clearAll_resets_witness:
  "activeWorkers (getQueueStats (registerWorker 1 ''w1'' noInfo initialState)) = 1
   \<and> activeWorkers (getQueueStats (clearAll (registerWorker 1 ''w1'' noInfo initialState))) = 1"
  using clearAll_resets [of "registerWorker 1 ''w1'' noInfo initialState"]
  by (simp add: model_defs example_defs)

section \<open>Stale timers and stale ids\<close>

text \<open>
  Claim C7. An execution: submit task \<open>a\<close> at high priority, fetch it, fail it at
  time 30 (a re-enqueue is scheduled with delay 1000), then \<open>clearAll\<close>. The timer is
  still pending after \<open>clearAll\<close>, while lanes and task store are empty. Before time
  1030 the timer does not run; at 1030 the callback runs and puts \<open>a\<close> into the high
  lane, although the task store has no record of \<open>a\<close>, and counts it as pending.
  No call of \<open>clearAll\<close> removes a pending timer.
\<close>

theorem stale_timer_after_clearAll:
  "timers (exec defaultConfig retryWindowOps initialState)
     = [\<lparr>timer_task = 0, timer_taskId = ''a'', timer_delay = 1000, timer_setAt = 30\<rparr>]
   \<and> timers (exec defaultConfig (retryWindowOps @ [ClearAll]) initialState)
     = [\<lparr>timer_task = 0, timer_taskId = ''a'', timer_delay = 1000, timer_setAt = 30\<rparr>]
   \<and> queues (exec defaultConfig (retryWindowOps @ [ClearAll]) initialState) High = []
   \<and> tasks (exec defaultConfig (retryWindowOps @ [ClearAll]) initialState) = []
   \<and> exec defaultConfig (retryWindowOps @ [ClearAll, TimerFire 0 1029]) initialState
     = exec defaultConfig (retryWindowOps @ [ClearAll]) initialState
   \<and> queues (exec defaultConfig staleOps initialState) High = [''a'']
   \<and> tasks (exec defaultConfig staleOps initialState) = []
   \<and> getTaskStatus ''a'' (exec defaultConfig staleOps initialState) = None
   \<and> timers (exec defaultConfig staleOps initialState) = []
   \<and> pendingTasks (getQueueStats (exec defaultConfig staleOps initialState)) = 1
   \<and> len_high (queueLengths (getQueueStats (exec defaultConfig staleOps initialState))) = 1
   \<and> (\<forall>s. timers (clearAll s) = timers s)"
  by (simp add: model_defs example_defs)

text \<open>
  Claim C8. If the oldest id of a non-empty lane has no record in the task store, the scan
  pops it and goes on with the lanes that follow: the result of the call is the result of
  scanning the remaining priorities from the state with that one id removed. The lane
  has lost exactly that id when the call returns (its other ids are not looked at), and
  nothing puts the id back.
\<close>

theorem stale_id_dropped:
  assumes "queues s p \<noteq> []" and "map_of (tasks s) (last (queues s p)) = None"
    and "p \<notin> set ps"
  shows "getNextTask_scan wid now (p # ps) s
           = getNextTask_scan wid now ps (s\<lparr>queues := (queues s)(p := butlast (queues s p))\<rparr>)
       \<and> queues (snd (getNextTask_scan wid now (p # ps) s)) p = butlast (queues s p)
       \<and> (p = High \<longrightarrow> getNextTask wid now s
            = getNextTask_scan wid now [Normal, Low]
                (s\<lparr>queues := (queues s)(High := butlast (queues s High))\<rparr>))
       \<and> (p = Normal \<and> queues s High = [] \<longrightarrow> getNextTask wid now s
            = getNextTask_scan wid now [Low]
                (s\<lparr>queues := (queues s)(Normal := butlast (queues s Normal))\<rparr>))
       \<and> (p = Low \<and> queues s High = [] \<and> queues s Normal = [] \<longrightarrow>
            getNextTask wid now s
              = (None, s\<lparr>queues := (queues s)(Low := butlast (queues s Low))\<rparr>))"
proof -
  have 1: "getNextTask_scan wid now (p # ps) s
           = getNextTask_scan wid now ps (s\<lparr>queues := (queues s)(p := butlast (queues s p))\<rparr>)"
    using assms(1,2) by (rule scan_stale)
  have 2: "queues (snd (getNextTask_scan wid now (p # ps) s)) p = butlast (queues s p)"
    unfolding 1 using scan_other_lane[OF assms(3)] by simp
  have 3: "p = High \<longrightarrow> getNextTask wid now s
            = getNextTask_scan wid now [Normal, Low]
                (s\<lparr>queues := (queues s)(High := butlast (queues s High))\<rparr>)"
    using scan_stale[OF assms(1,2), of wid now "[Normal, Low]"]
    by (auto simp add: getNextTask_def simp del: getNextTask_scan.simps)
  have 4: "p = Normal \<and> queues s High = [] \<longrightarrow> getNextTask wid now s
            = getNextTask_scan wid now [Low]
                (s\<lparr>queues := (queues s)(Normal := butlast (queues s Normal))\<rparr>)"
    using scan_stale[OF assms(1,2), of wid now "[Low]"]
    by (auto simp add: getNextTask_def scan_empty_lane simp del: getNextTask_scan.simps)
  have 5: "p = Low \<and> queues s High = [] \<and> queues s Normal = [] \<longrightarrow>
            getNextTask wid now s
              = (None, s\<lparr>queues := (queues s)(Low := butlast (queues s Low))\<rparr>)"
    using scan_stale[OF assms(1,2), of wid now "[]"]
    by (auto simp add: getNextTask_def scan_empty_lane
          simp del: getNextTask_scan.simps(2))
  from 1 2 3 4 5 show ?thesis by blast
qed

text \<open>
  An instance: after the execution above the high lane holds the stale id \<open>a\<close>.
  Submit \<open>c\<close> at high and \<open>b\<close> at normal priority. The next fetch pops \<open>a\<close>,
  leaves \<open>c\<close> in the high lane and returns \<open>b\<close> from the normal lane.
\<close>

theorem stale_id_dropped_witness:
  "queues (exec defaultConfig skipOps initialState) High = [''c'', ''a'']
   \<and> map_of (tasks (exec defaultConfig skipOps initialState)) ''a'' = None
   \<and> queues (snd (getNextTask ''w1'' 1050 (exec defaultConfig skipOps initialState))) High
      = [''c'']
   \<and> map_option taskId (fst (getNextTask ''w1'' 1050 (exec defaultConfig skipOps initialState)))
      = Some ''b''"
proof -
  let ?s = "exec defaultConfig skipOps initialState"
  have q: "queues ?s High = [''c'', ''a'']" by (simp add: model_defs example_defs)
  have h1: "queues ?s High \<noteq> []" using q by simp
  have h2: "map_of (tasks ?s) (last (queues ?s High)) = None"
    by (simp add: model_defs example_defs)
  have h3: "High \<notin> set [Normal, Low]" by simp
  have r: "map_option taskId (fst (getNextTask ''w1'' 1050 ?s)) = Some ''b''"
    by (simp add: model_defs example_defs)
  have c: "queues (snd (getNextTask ''w1'' 1050 ?s)) High = butlast (queues ?s High)"
    using stale_id_dropped [OF h1 h2 h3, of "''w1''" 1050] unfolding getNextTask_def by blast
  have h2': "map_of (tasks ?s) ''a'' = None" using h2 q by simp
  show ?thesis
    using q h2' r c by simp
qed

end
